theory Spec2Isabelle
  imports Main "HOL-Library.Sublist"
begin

section \<open>JavaScript values used by the service\<close>

text \<open>
  Strings are byte strings. An optional parameter or field (\<^verbatim>\<open>login?: string\<close>) is a
  \<open>string option\<close>, \<open>None\<close> standing for \<^verbatim>\<open>undefined\<close>/\<^verbatim>\<open>null\<close>. JavaScript treats
  \<^verbatim>\<open>undefined\<close> and the empty string as falsy; \<open>truthy\<close> is that test and \<open>orEmpty\<close> is the
  expression \<^verbatim>\<open>x || ""\<close>.
\<close>

definition truthy :: "string option \<Rightarrow> bool" where
  "truthy v = (case v of None \<Rightarrow> False | Some s \<Rightarrow> s \<noteq> [])"

definition orEmpty :: "string option \<Rightarrow> string" where
  "orEmpty v = (case v of None \<Rightarrow> [] | Some s \<Rightarrow> (if s \<noteq> [] then s else []))"

text \<open>
  \<^verbatim>\<open>String.prototype.toLowerCase\<close>, on the ASCII letters: the bytes 65..90 (\<open>A\<close>..\<open>Z\<close>) move
  to 97..122, every other byte stays. The characters of a JavaScript string outside ASCII
  are not told apart here; of them, \<^verbatim>\<open>toLowerCase\<close> sends U+212A (the Kelvin sign) to \<open>k\<close>
  and U+0130 to \<open>i\<close> followed by U+0307, and no other to an ASCII character.
\<close>

definition toLowerChar :: "char \<Rightarrow> char" where
  "toLowerChar c =
     (let n = (of_char c :: nat) in if 65 \<le> n \<and> n \<le> 90 then char_of (n + 32) else c)"

definition toLowerCase :: "string \<Rightarrow> string" where
  "toLowerCase s = map toLowerChar s"

text \<open>
  The regular expressions of the source are literals with at most an end anchor and the
  \<^verbatim>\<open>i\<close> flag: \<^verbatim>\<open>/dependabot/i\<close> is \<open>Regex False True ''dependabot''\<close>,
  \<^verbatim>\<open>/\[bot\]$/i\<close> is \<open>Regex True True ''[bot]''\<close>. \<open>test\<close> is \<^verbatim>\<open>RegExp.prototype.test\<close>:
  an unanchored literal matches anywhere in the subject, an end-anchored one only as its
  suffix (no \<^verbatim>\<open>m\<close> flag is used, so \<^verbatim>\<open>$\<close> is the end of the whole subject).
\<close>

datatype regex = Regex (anchoredEnd: bool) (ignoreCase: bool) (literal: string)

definition test :: "regex \<Rightarrow> string \<Rightarrow> bool" where
  "test r s =
     (let subject = (if ignoreCase r then toLowerCase s else s);
          lit = (if ignoreCase r then toLowerCase (literal r) else literal r)
      in if anchoredEnd r then suffix lit subject else sublist lit subject)"

section \<open>utils.ts\<close>

subsection \<open>isBotAccount\<close>

definition botIndicators :: "regex list" where
  "botIndicators =
     [ Regex False True ''dependabot'',
       Regex False True ''renovate'',
       Regex False True ''greenkeeper'',
       Regex False True ''github-actions'',
       Regex False True ''codecov'',
       Regex False True ''snyk'',
       Regex False True ''web-flow'',
       Regex True True ''[bot]'',
       Regex True True ''-bot'',
       Regex False True ''bot-'',
       Regex False False ''noreply@github.com'' ]"

text \<open>The template literal \<^verbatim>\<open>`${login || ""} ${name || ""} ${email || ""}`\<close>, lowercased.\<close>

definition checkString :: "string option \<Rightarrow> string option \<Rightarrow> string option \<Rightarrow> string" where
  "checkString login name email =
     toLowerCase (orEmpty login @ '' '' @ orEmpty name @ '' '' @ orEmpty email)"

definition isBotAccount :: "string option \<Rightarrow> string option \<Rightarrow> string option \<Rightarrow> bool" where
  "isBotAccount login name email =
     (if \<not> truthy login \<and> \<not> truthy name \<and> \<not> truthy email then False
      else list_ex (\<lambda>pattern. test pattern (checkString login name email)) botIndicators)"

subsection \<open>getHealthStatus\<close>

datatype HealthStatus = healthy | moderate | inactive

definition getHealthStatus :: "int \<Rightarrow> int \<Rightarrow> int \<Rightarrow> HealthStatus" where
  "getHealthStatus commits healthyThreshold moderateThreshold =
     (if commits \<ge> healthyThreshold then healthy
      else if commits \<ge> moderateThreshold then moderate
      else inactive)"

section \<open>Time values\<close>

text \<open>
  A \<^verbatim>\<open>Date\<close> is its time value: milliseconds since the epoch, an \<open>int\<close> (only valid dates
  are modelled). \<^verbatim>\<open>getUTCDate\<close> and \<^verbatim>\<open>getUTCHours\<close> are the functions of ECMA-262,
  section 21.4.1: \<open>Day\<close>, \<open>DaysInYear\<close>, \<open>DayFromYear\<close>, \<open>YearFromTime\<close>, \<open>InLeapYear\<close>,
  \<open>DayWithinYear\<close>, \<open>MonthFromTime\<close>, \<open>DateFromTime\<close>, \<open>HourFromTime\<close>. The standard
  specifies \<open>YearFromTime t\<close> as the largest year whose first day is not after \<open>t\<close>;
  \<open>yearSearch\<close> finds it by stepping from an estimate.
\<close>

definition msPerDay :: int where
  "msPerDay = 86400000"

definition msPerHour :: int where
  "msPerHour = 3600000"

definition Day :: "int \<Rightarrow> int" where
  "Day t = t div msPerDay"

definition DaysInYear :: "int \<Rightarrow> int" where
  "DaysInYear y =
     (if y mod 4 \<noteq> 0 then 365
      else if y mod 100 \<noteq> 0 then 366
      else if y mod 400 \<noteq> 0 then 365
      else 366)"

definition DayFromYear :: "int \<Rightarrow> int" where
  "DayFromYear y =
     365 * (y - 1970) + (y - 1969) div 4 - (y - 1901) div 100 + (y - 1601) div 400"

text \<open>Consecutive years start \<open>DaysInYear\<close> days apart; the search below terminates by it.\<close>

lemma div_succ:
  fixes a n :: int
  assumes "0 < n"
  shows "(a + 1) div n = a div n + (if (a + 1) mod n = 0 then 1 else 0)"
proof -
  define q r where "q = a div n" and "r = a mod n"
  have a: "a = n * q + r" and r: "0 \<le> r" "r < n"
    using assms by (simp_all add: q_def r_def)
  show ?thesis
  proof (cases "r + 1 = n")
    case True
    then have e: "a + 1 = n * (q + 1)" using a by (simp add: algebra_simps)
    have "(a + 1) div n = q + 1" "(a + 1) mod n = 0"
      unfolding e using assms by simp_all
    then show ?thesis by (simp add: q_def)
  next
    case False
    then have e: "a + 1 = n * q + (r + 1)" "0 \<le> r + 1" "r + 1 < n" using a r by simp_all
    have "(a + 1) div n = q" by (rule int_div_pos_eq[OF e])
    moreover have "(a + 1) mod n = r + 1" by (rule int_mod_pos_eq[OF e])
    ultimately show ?thesis using r by (simp add: q_def)
  qed
qed

lemma shift_mod: "((y::int) - k * n) mod n = y mod n"
  by (metis mod_mult_self2 diff_conv_add_uminus mult_minus_left mult.commute)

lemma leap_div4: "((y::int) - 1968) div 4 = (y - 1969) div 4 + (if y mod 4 = 0 then 1 else 0)"
  using div_succ[of 4 "y - 1969"] shift_mod[of y 492 4] by simp

lemma leap_div100:
  "((y::int) - 1900) div 100 = (y - 1901) div 100 + (if y mod 100 = 0 then 1 else 0)"
  using div_succ[of 100 "y - 1901"] shift_mod[of y 19 100] by simp

lemma leap_div400:
  "((y::int) - 1600) div 400 = (y - 1601) div 400 + (if y mod 400 = 0 then 1 else 0)"
  using div_succ[of 400 "y - 1601"] shift_mod[of y 4 400] by simp

lemma mod100_mod4: "(y::int) mod 100 = 0 \<Longrightarrow> y mod 4 = 0"
proof -
  assume "y mod 100 = 0"
  then have "100 dvd y" by (simp add: mod_eq_0_iff_dvd)
  moreover have "(4::int) dvd 100" by simp
  ultimately have "4 dvd y" by (rule dvd_trans[rotated])
  then show ?thesis by (simp add: mod_eq_0_iff_dvd)
qed

lemma mod400_mod100: "(y::int) mod 400 = 0 \<Longrightarrow> y mod 100 = 0"
proof -
  assume "y mod 400 = 0"
  then have "400 dvd y" by (simp add: mod_eq_0_iff_dvd)
  moreover have "(100::int) dvd 400" by simp
  ultimately have "100 dvd y" by (rule dvd_trans[rotated])
  then show ?thesis by (simp add: mod_eq_0_iff_dvd)
qed

lemma DayFromYear_step: "DayFromYear (y + 1) = DayFromYear y + DaysInYear y"
proof -
  have "DayFromYear (y + 1) =
      365 * (y - 1969) + (y - 1968) div 4 - (y - 1900) div 100 + (y - 1600) div 400"
    by (simp add: DayFromYear_def)
  also have "\<dots> = DayFromYear y + 365 + (if y mod 4 = 0 then 1 else 0)
      - (if y mod 100 = 0 then 1 else 0) + (if y mod 400 = 0 then 1 else 0)"
    unfolding leap_div4 leap_div100 leap_div400 DayFromYear_def by simp
  also have "\<dots> = DayFromYear y + DaysInYear y"
    using mod100_mod4[of y] mod400_mod100[of y] by (auto simp: DaysInYear_def)
  finally show ?thesis .
qed

lemma DayFromYear_less: "DayFromYear y < DayFromYear (y + 1)"
  unfolding DayFromYear_step DaysInYear_def by simp

function yearSearch :: "int \<Rightarrow> int \<Rightarrow> int" where
  "yearSearch d y =
     (if DayFromYear (y + 1) \<le> d then yearSearch d (y + 1)
      else if d < DayFromYear y then yearSearch d (y - 1)
      else y)"
  by pat_completeness auto
termination
proof (relation "measure (\<lambda>(d, y).
    if DayFromYear (y + 1) \<le> d then nat (d - DayFromYear y)
    else if d < DayFromYear y then nat (DayFromYear (y + 1) - d)
    else 0)")
  show "wf (measure (\<lambda>(d, y).
    if DayFromYear (y + 1) \<le> d then nat (d - DayFromYear y)
    else if d < DayFromYear y then nat (DayFromYear (y + 1) - d)
    else 0))"
    by simp
next
  fix d y :: int
  assume up: "DayFromYear (y + 1) \<le> d"
  have "DayFromYear y < DayFromYear (y + 1)" "DayFromYear (y + 1) < DayFromYear (y + 1 + 1)"
    by (rule DayFromYear_less)+
  with up show "((d, y + 1), (d, y)) \<in> measure (\<lambda>(d, y).
    if DayFromYear (y + 1) \<le> d then nat (d - DayFromYear y)
    else if d < DayFromYear y then nat (DayFromYear (y + 1) - d)
    else 0)"
    by auto
next
  fix d y :: int
  assume "\<not> DayFromYear (y + 1) \<le> d" and down: "d < DayFromYear y"
  have "DayFromYear (y - 1) < DayFromYear (y - 1 + 1)" "DayFromYear y < DayFromYear (y + 1)"
    by (rule DayFromYear_less)+
  with down show "((d, y - 1), (d, y)) \<in> measure (\<lambda>(d, y).
    if DayFromYear (y + 1) \<le> d then nat (d - DayFromYear y)
    else if d < DayFromYear y then nat (DayFromYear (y + 1) - d)
    else 0)"
    by auto
qed

declare yearSearch.simps [simp del]

definition YearFromTime :: "int \<Rightarrow> int" where
  "YearFromTime t = yearSearch (Day t) (1970 + Day t div 366)"

definition InLeapYear :: "int \<Rightarrow> int" where
  "InLeapYear t = (if DaysInYear (YearFromTime t) = 365 then 0 else 1)"

definition DayWithinYear :: "int \<Rightarrow> int" where
  "DayWithinYear t = Day t - DayFromYear (YearFromTime t)"

definition MonthFromTime :: "int \<Rightarrow> int" where
  "MonthFromTime t =
     (let d = DayWithinYear t; leap = InLeapYear t in
      if d < 31 then 0
      else if d < 59 + leap then 1
      else if d < 90 + leap then 2
      else if d < 120 + leap then 3
      else if d < 151 + leap then 4
      else if d < 181 + leap then 5
      else if d < 212 + leap then 6
      else if d < 243 + leap then 7
      else if d < 273 + leap then 8
      else if d < 304 + leap then 9
      else if d < 334 + leap then 10
      else 11)"

definition DateFromTime :: "int \<Rightarrow> int" where
  "DateFromTime t =
     (let d = DayWithinYear t; leap = InLeapYear t; m = MonthFromTime t in
      if m = 0 then d + 1
      else if m = 1 then d - 30
      else if m = 2 then d - 58 - leap
      else if m = 3 then d - 89 - leap
      else if m = 4 then d - 119 - leap
      else if m = 5 then d - 150 - leap
      else if m = 6 then d - 180 - leap
      else if m = 7 then d - 211 - leap
      else if m = 8 then d - 242 - leap
      else if m = 9 then d - 272 - leap
      else if m = 10 then d - 303 - leap
      else d - 333 - leap)"

definition HourFromTime :: "int \<Rightarrow> int" where
  "HourFromTime t = (t div msPerHour) mod 24"

definition getUTCDate :: "int \<Rightarrow> int" where
  "getUTCDate t = DateFromTime t"

definition getUTCHours :: "int \<Rightarrow> int" where
  "getUTCHours t = HourFromTime t"

section \<open>cache.ts: the freshness policy\<close>

text \<open>
  \<^verbatim>\<open>new Date()\<close> reads the clock; the instant read is the parameter \<open>now\<close>.
  \<open>lastUpdated\<close> is the time value of \<^verbatim>\<open>new Date(lastUpdated)\<close>.
\<close>

definition shouldUpdateCache :: "int \<Rightarrow> int \<Rightarrow> int \<Rightarrow> bool" where
  "shouldUpdateCache now lastUpdate jstUpdateHour' =
     (let jstNow = now + 9 * 60 * 60 * 1000;
          jstLastUpdate = lastUpdate + 9 * 60 * 60 * 1000
      in if now - lastUpdate > 24 * 60 * 60 * 1000 then True
         else if getUTCDate jstNow \<noteq> getUTCDate jstLastUpdate \<and>
                 getUTCHours jstNow \<ge> jstUpdateHour' then True
         else False)"

section \<open>The provider and its trace\<close>

text \<open>
  Every URL the service requests, by its parts:
  \<^item> \<open>ReposCommitsUrl owner repo author since\<close> is
    \<^verbatim>\<open>/repos/${repoOwner}/${repoName}/commits?author=${username}&since=${since}&per_page=100\<close>;
  \<^item> \<open>UsersOrgsUrl user\<close> is \<^verbatim>\<open>/users/${username}/orgs\<close>;
  \<^item> \<open>OrgsReposUrl org n\<close> is \<^verbatim>\<open>/orgs/${org.login}/repos?type=public&sort=updated&per_page=${n}\<close>;
  \<^item> \<open>UsersReposUrl user\<close> is \<^verbatim>\<open>/users/${username}/repos?type=owner&sort=updated&per_page=30\<close>.
\<close>

datatype url =
    ReposCommitsUrl string string string int
  | UsersOrgsUrl string
  | OrgsReposUrl string int
  | UsersReposUrl string

type_synonym headers = "(string \<times> string) list"

type_synonym request = "url \<times> headers"

text \<open>
  What a function can throw: the error a rejected \<^verbatim>\<open>fetch\<close> carries, the synthetic error
  of \<^verbatim>\<open>fetchWithRetry\<close>, the error raised by \<^verbatim>\<open>response.json()\<close> (or by walking a
  body that has not the declared shape), and the error of reading a name that is not bound.
\<close>

datatype js_error =
    NetworkError string
  | FailedAfterRetries url nat
  | BodyError
  | ReferenceError string

text \<open>
  A \<^verbatim>\<open>Response\<close>: its status, the value of \<^verbatim>\<open>headers.get("retry-after")\<close>, and the
  value \<^verbatim>\<open>json()\<close> resolves to, typed as the source casts it (\<open>None\<close> when \<^verbatim>\<open>json()\<close>
  rejects, or when the code throws on reading a body of another shape at the place where
  a rejection would have been thrown).
\<close>

datatype 'a Response = Response (status: int) (retryAfterHeader: "string option") (json: "'a option")

definition ok :: "'a Response \<Rightarrow> bool" where
  "ok response = (200 \<le> status response \<and> status response \<le> 299)"

datatype 'a fetch_outcome = Rejected js_error | Resolved "'a Response"

text \<open>
  The provider, as seen through \<^verbatim>\<open>fetch\<close>: \<open>fetch request i\<close> is how the call of attempt
  \<open>i\<close> (counted from 0 inside one \<^verbatim>\<open>fetchWithRetry\<close>) settles.
\<close>

type_synonym 'a fetch = "request \<Rightarrow> nat \<Rightarrow> 'a fetch_outcome"

text \<open>
  The effects of a run, in order: each call of \<^verbatim>\<open>fetch\<close> with its attempt number, and
  each \<^verbatim>\<open>setTimeout\<close> sleep with its delay (\<open>None\<close> for the delay \<^verbatim>\<open>NaN\<close>).
\<close>

datatype event = Fetch request nat | Sleep "int option"

definition after :: "event list \<Rightarrow> 'r \<times> event list \<Rightarrow> 'r \<times> event list" where
  "after events run = (fst run, events @ snd run)"

subsection \<open>parseInt\<close>

text \<open>
  \<^verbatim>\<open>parseInt(s)\<close> with no radix: leading white space is skipped, a sign is read, a
  \<^verbatim>\<open>0x\<close> prefix selects base 16, and the longest prefix of digits is the value; with no
  digit the result is \<^verbatim>\<open>NaN\<close> (\<open>None\<close>). The value is an unbounded integer here;
  JavaScript holds it as a double, which is the same number up to \<open>2 ^ 53\<close>.
\<close>

definition isWhiteSpace :: "char \<Rightarrow> bool" where
  "isWhiteSpace c = ((of_char c :: nat) \<in> {9, 10, 11, 12, 13, 32})"

definition digitValue :: "char \<Rightarrow> int option" where
  "digitValue c =
     (let n = (of_char c :: nat) in
      if 48 \<le> n \<and> n \<le> 57 then Some (int n - 48)
      else if 97 \<le> n \<and> n \<le> 102 then Some (int n - 87)
      else if 65 \<le> n \<and> n \<le> 70 then Some (int n - 55)
      else None)"

definition isDigitOf :: "int \<Rightarrow> char \<Rightarrow> bool" where
  "isDigitOf radix c = (case digitValue c of None \<Rightarrow> False | Some v \<Rightarrow> v < radix)"

definition digitsValue :: "int \<Rightarrow> string \<Rightarrow> int option" where
  "digitsValue radix s =
     (let ds = takeWhile (isDigitOf radix) s in
      if ds = [] then None
      else Some (foldl (\<lambda>acc c. radix * acc + (case digitValue c of None \<Rightarrow> 0 | Some v \<Rightarrow> v)) 0 ds))"

definition parseInt :: "string \<Rightarrow> int option" where
  "parseInt s =
     (let t = dropWhile isWhiteSpace s;
          sign = (if take 1 t = ''-'' then - 1 else 1);
          u = (if take 1 t = ''-'' \<or> take 1 t = ''+'' then drop 1 t else t);
          hex = (take 2 u = ''0x'' \<or> take 2 u = ''0X'')
      in map_option (\<lambda>v. sign * v) (if hex then digitsValue 16 (drop 2 u) else digitsValue 10 u))"

section \<open>utils.ts: fetchWithRetry\<close>

text \<open>
  The loop \<^verbatim>\<open>for (let i = 0; i < maxRetries; i++)\<close> from attempt \<open>i\<close> on, with the current
  \<^verbatim>\<open>lastError\<close>. The result is what the function returns (\<open>Inr\<close>) or throws (\<open>Inl\<close>),
  with the trace of its calls and sleeps.
\<close>

function fetchLoop ::
  "'a fetch \<Rightarrow> request \<Rightarrow> nat \<Rightarrow> int \<Rightarrow> nat \<Rightarrow> js_error option
     \<Rightarrow> (js_error + 'a Response) \<times> event list" where
  "fetchLoop fetch req maxRetries initialDelay i lastError =
     (if i < maxRetries then
        (case fetch req i of
           Resolved response \<Rightarrow>
             if status response = 429 \<or> status response = 403 then
               after [Fetch req i,
                      Sleep (case retryAfterHeader response of
                               None \<Rightarrow> Some (initialDelay * 2 ^ i)
                             | Some retryAfter \<Rightarrow>
                                 if retryAfter \<noteq> []
                                 then map_option (\<lambda>n. n * 1000) (parseInt retryAfter)
                                 else Some (initialDelay * 2 ^ i))]
                 (fetchLoop fetch req maxRetries initialDelay (i + 1) lastError)
             else if status response \<ge> 500 then
               after [Fetch req i, Sleep (Some (initialDelay * 2 ^ i))]
                 (fetchLoop fetch req maxRetries initialDelay (i + 1) lastError)
             else (Inr response, [Fetch req i])
         | Rejected error \<Rightarrow>
             after [Fetch req i, Sleep (Some (initialDelay * 2 ^ i))]
               (fetchLoop fetch req maxRetries initialDelay (i + 1) (Some error)))
      else
        (Inl (case lastError of
                Some error \<Rightarrow> error
              | None \<Rightarrow> FailedAfterRetries (fst req) maxRetries), []))"
  by pat_completeness auto
termination
  by (relation "measure (\<lambda>(fetch, req, maxRetries, initialDelay, i, lastError). maxRetries - i)")
     auto

declare fetchLoop.simps [simp del]

definition fetchWithRetry ::
  "'a fetch \<Rightarrow> request \<Rightarrow> nat \<Rightarrow> int \<Rightarrow> (js_error + 'a Response) \<times> event list" where
  "fetchWithRetry fetch req maxRetries initialDelay =
     fetchLoop fetch req maxRetries initialDelay 0 None"

section \<open>types.ts\<close>

text \<open>
  Numbers are integers. \<open>updated_at\<close> holds the time value of \<^verbatim>\<open>new Date(repo.updated_at)\<close>,
  \<open>None\<close> for an invalid date; \<open>author_login\<close> is \<^verbatim>\<open>commit.author?.login\<close>, \<open>author_name\<close> and
  \<open>author_email\<close> are \<^verbatim>\<open>commit.commit.author.name\<close> and \<^verbatim>\<open>.email\<close>; a parameter that
  would share its name with a field carries a prime.
\<close>

record Config =
  username :: string
  healthyThreshold :: int
  moderateThreshold :: int
  monitoringDays :: int
  cacheTTL :: int
  jstUpdateHour :: int
  githubToken :: "string option"
  includeOrgRepos :: bool
  maxReposPerOrg :: int
  excludeRepos :: "string list"
  excludeOrgs :: "string list"

record GitHubRepo =
  name :: string
  updated_at :: "int option"

record GitHubCommit =
  author_login :: "string option"
  author_name :: string
  author_email :: string
  parents :: "string list"

record GitHubOrg =
  login :: string

record Sources =
  owned :: int
  org :: int

text \<open>The value \<^verbatim>\<open>getCommitCount\<close> resolves to, and \<^verbatim>\<open>CacheData\<close>, which adds two fields.\<close>

record CommitCount =
  commits :: int
  sources :: Sources

record CacheData = CommitCount +
  status :: HealthStatus
  lastUpdated :: int

text \<open>
  The body of an organisation's repository listing is not read by the task that fetches
  it: the task returns it as it is, and the flattening loop walks it later, outside the
  \<^verbatim>\<open>try\<close> of the task. \<open>Listing repos\<close> is a body that is the array \<open>repos\<close>; \<open>NotIterable\<close> is
  a body that \<^verbatim>\<open>for ... of\<close> cannot walk (an object that is no array), on which the loop
  throws. A body that is \<^verbatim>\<open>null\<close> is passed over by the test \<^verbatim>\<open>result.repos\<close> and adds
  nothing, as \<open>Listing []\<close> does.
\<close>

datatype 'a listing = Listing 'a | NotIterable

text \<open>The four endpoints of the provider, each with the body type the source casts to.\<close>

record provider =
  userRepos :: "GitHubRepo list fetch"
  userOrgs :: "GitHubOrg list fetch"
  orgRepos :: "GitHubRepo list listing fetch"
  repoCommits :: "GitHubCommit list fetch"

section \<open>github.ts\<close>

definition getGithubHeaders :: "string option \<Rightarrow> headers" where
  "getGithubHeaders token =
     [(''Accept'', ''application/vnd.github.v3+json''),
      (''User-Agent'', ''Am-I-Genki-Badge-Service'')]
     @ (if truthy token then [(''Authorization'', ''token '' @ orEmpty token)] else [])"

subsection \<open>getRepoCommits\<close>

text \<open>The callback of \<^verbatim>\<open>commits.filter\<close>.\<close>

definition commitFilter :: "string \<Rightarrow> GitHubCommit \<Rightarrow> bool" where
  "commitFilter username' commit =
     (let authorLogin = author_login commit;
          authorName = author_name commit;
          authorEmail = author_email commit;
          isMergeCommit = (length (parents commit) \<ge> 2)
      in \<not> isBotAccount authorLogin (Some authorName) (Some authorEmail) \<and>
         \<not> isMergeCommit \<and>
         authorLogin = Some username')"

text \<open>
  The \<^verbatim>\<open>try\<close> block: \<open>Inl\<close> is an error thrown inside it, \<open>Inr (Some n)\<close> its
  \<^verbatim>\<open>return userCommits.length\<close>, \<open>Inr None\<close> leaving it without a return.
\<close>

definition getRepoCommits_try ::
  "provider \<Rightarrow> string \<Rightarrow> string \<Rightarrow> string \<Rightarrow> int \<Rightarrow> string option
     \<Rightarrow> (js_error + int option) \<times> event list" where
  "getRepoCommits_try p username' repoOwner repoName since token =
     (case fetchWithRetry (repoCommits p)
             (ReposCommitsUrl repoOwner repoName username' since, getGithubHeaders token) 3 500 of
        (Inl error, tr) \<Rightarrow> (Inl error, tr)
      | (Inr commitsResponse, tr) \<Rightarrow>
          if ok commitsResponse then
            (case json commitsResponse of
               None \<Rightarrow> (Inl BodyError, tr)
             | Some commits' \<Rightarrow>
                 (Inr (Some (int (length (filter (commitFilter username') commits')))), tr))
          else (Inr None, tr))"

text \<open>The whole function: the \<^verbatim>\<open>catch\<close> logs, and \<^verbatim>\<open>return 0\<close> follows the \<^verbatim>\<open>try\<close>.\<close>

definition getRepoCommits ::
  "provider \<Rightarrow> string \<Rightarrow> string \<Rightarrow> string \<Rightarrow> int \<Rightarrow> string option
     \<Rightarrow> (js_error + int) \<times> event list" where
  "getRepoCommits p username' repoOwner repoName since token =
     (case getRepoCommits_try p username' repoOwner repoName since token of
        (Inl error, tr) \<Rightarrow> (Inr 0, tr)
      | (Inr (Some count), tr) \<Rightarrow> (Inr count, tr)
      | (Inr None, tr) \<Rightarrow> (Inr 0, tr))"

subsection \<open>Batches\<close>

text \<open>
  \<^verbatim>\<open>await Promise.all(xs.map(task))\<close>: the results in the order of \<open>xs\<close>; the tasks of a
  batch run concurrently, and their traces are listed one after the other.
\<close>

fun awaitAll :: "('a \<Rightarrow> 'b \<times> event list) \<Rightarrow> 'a list \<Rightarrow> 'b list \<times> event list" where
  "awaitAll task [] = ([], [])"
| "awaitAll task (x # xs) =
     (case task x of
        (result, tr) \<Rightarrow>
          (case awaitAll task xs of
             (results, trs) \<Rightarrow> (result # results, tr @ trs)))"

declare awaitAll.simps(2) [simp del]

text \<open>\<^verbatim>\<open>xs.slice(start, stop)\<close> for \<open>0 \<le> start\<close>.\<close>

definition slice :: "'a list \<Rightarrow> nat \<Rightarrow> nat \<Rightarrow> 'a list" where
  "slice xs start stop = take (stop - start) (drop start xs)"

definition batchSizeOf :: "Config \<Rightarrow> nat" where
  "batchSizeOf config = (if truthy (githubToken config) then 5 else 3)"

definition batchPause :: "Config \<Rightarrow> event" where
  "batchPause config = Sleep (Some (if truthy (githubToken config) then 100 else 200))"

text \<open>\<^verbatim>\<open>repoUpdated >= since\<close>; a comparison with an invalid date is false.\<close>

definition updatedSince :: "GitHubRepo \<Rightarrow> int \<Rightarrow> bool" where
  "updatedSince repo since = (case updated_at repo of None \<Rightarrow> False | Some repoUpdated \<Rightarrow> repoUpdated \<ge> since)"

subsection \<open>getOrgRepoCommits\<close>

text \<open>
  One element of \<^verbatim>\<open>orgReposPromises\<close>: \<open>None\<close> is \<^verbatim>\<open>null\<close>, \<open>Some (org, repos)\<close> is
  \<^verbatim>\<open>{ org: org.login, repos }\<close> with the body as it was parsed.
\<close>

definition orgReposTask ::
  "provider \<Rightarrow> Config \<Rightarrow> GitHubOrg
     \<Rightarrow> (string \<times> GitHubRepo list listing) option \<times> event list" where
  "orgReposTask p config org' =
     (case fetchWithRetry (orgRepos p)
             (OrgsReposUrl (login org') (maxReposPerOrg config),
              getGithubHeaders (githubToken config)) 3 1000 of
        (Inl error, tr) \<Rightarrow> (None, tr)
      | (Inr orgReposResponse, tr) \<Rightarrow>
          if ok orgReposResponse then
            (case json orgReposResponse of
               None \<Rightarrow> (None, tr)
             | Some repos \<Rightarrow> (Some (login org', repos), tr))
          else (None, tr))"

text \<open>
  The inner loop \<^verbatim>\<open>for (const repo of result.repos)\<close> with its \<^verbatim>\<open>break\<close>, and the outer
  loop over \<^verbatim>\<open>orgReposResults\<close> from the list \<open>allOrgRepos\<close> built so far; the outer loop
  throws at the first body that cannot be walked.
\<close>

fun pushOrgRepos ::
  "Config \<Rightarrow> int \<Rightarrow> int \<Rightarrow> string \<Rightarrow> GitHubRepo list \<Rightarrow> (string \<times> GitHubRepo) list
     \<Rightarrow> (string \<times> GitHubRepo) list" where
  "pushOrgRepos config since maxRepos orgName [] allOrgRepos = allOrgRepos"
| "pushOrgRepos config since maxRepos orgName (repo # repos) allOrgRepos =
     (if int (length allOrgRepos) \<ge> maxRepos then allOrgRepos
      else if updatedSince repo since \<and> name repo \<notin> set (excludeRepos config)
      then pushOrgRepos config since maxRepos orgName repos (allOrgRepos @ [(orgName, repo)])
      else pushOrgRepos config since maxRepos orgName repos allOrgRepos)"

fun flattenOrgRepos ::
  "Config \<Rightarrow> int \<Rightarrow> int \<Rightarrow> (string \<times> GitHubRepo list listing) option list
     \<Rightarrow> (string \<times> GitHubRepo) list \<Rightarrow> js_error + (string \<times> GitHubRepo) list" where
  "flattenOrgRepos config since maxRepos [] allOrgRepos = Inr allOrgRepos"
| "flattenOrgRepos config since maxRepos (None # results) allOrgRepos =
     flattenOrgRepos config since maxRepos results allOrgRepos"
| "flattenOrgRepos config since maxRepos (Some (orgName, NotIterable) # results) allOrgRepos =
     Inl BodyError"
| "flattenOrgRepos config since maxRepos (Some (orgName, Listing repos) # results) allOrgRepos =
     flattenOrgRepos config since maxRepos results
       (pushOrgRepos config since maxRepos orgName repos allOrgRepos)"

text \<open>One element of \<^verbatim>\<open>batchPromises\<close>: \<open>Some commits\<close> for a positive count, else \<^verbatim>\<open>null\<close>.\<close>

definition orgBatchTask ::
  "provider \<Rightarrow> string \<Rightarrow> Config \<Rightarrow> int \<Rightarrow> string \<times> GitHubRepo \<Rightarrow> int option \<times> event list" where
  "orgBatchTask p username' config since entry =
     (case getRepoCommits p username' (fst entry) (name (snd entry)) since (githubToken config) of
        (Inl error, tr) \<Rightarrow> (None, tr)
      | (Inr count, tr) \<Rightarrow> (if count > 0 then Some count else None, tr))"

text \<open>The loop \<^verbatim>\<open>for (const result of results)\<close> on the pair (totalOrgCommits, processedOrgRepos).\<close>

definition orgTally :: "int \<Rightarrow> int \<times> int \<Rightarrow> int option list \<Rightarrow> int \<times> int" where
  "orgTally maxRepos totals results =
     foldl (\<lambda>(totalOrgCommits, processedOrgRepos) result.
              case result of
                None \<Rightarrow> (totalOrgCommits, processedOrgRepos)
              | Some count \<Rightarrow>
                  if processedOrgRepos < maxRepos
                  then (totalOrgCommits + count, processedOrgRepos + 1)
                  else (totalOrgCommits, processedOrgRepos))
       totals results"

function orgBatches ::
  "provider \<Rightarrow> string \<Rightarrow> Config \<Rightarrow> int \<Rightarrow> int \<Rightarrow> (string \<times> GitHubRepo) list \<Rightarrow> nat
     \<Rightarrow> int \<times> int \<Rightarrow> (int \<times> int) \<times> event list" where
  "orgBatches p username' config since maxRepos allOrgRepos i totals =
     (if i < length allOrgRepos \<and> snd totals < maxRepos then
        (let batch = slice allOrgRepos i (min (i + batchSizeOf config) (length allOrgRepos));
             results = awaitAll (orgBatchTask p username' config since) batch;
             totals' = orgTally maxRepos totals (fst results);
             pause = (if i + batchSizeOf config < length allOrgRepos \<and> snd totals' < maxRepos
                      then [batchPause config] else [])
         in after (snd results @ pause)
              (orgBatches p username' config since maxRepos allOrgRepos
                 (i + batchSizeOf config) totals'))
      else (totals, []))"
  by pat_completeness auto
termination
  by (relation "measure (\<lambda>(p, username', config, since, maxRepos, allOrgRepos, i, totals).
        length allOrgRepos - i)")
     (auto simp: batchSizeOf_def)

declare orgBatches.simps [simp del]

text \<open>
  The function resolves to the pair (commits, repos). An error thrown before the batches
  (by the organisations request or its body, or by the flattening loop) is caught by the
  outer \<^verbatim>\<open>catch\<close>, with both totals still 0.
\<close>

definition getOrgRepoCommits ::
  "provider \<Rightarrow> string \<Rightarrow> Config \<Rightarrow> int \<Rightarrow> int \<Rightarrow> (int \<times> int) \<times> event list" where
  "getOrgRepoCommits p username' config since maxRepos =
     (case fetchWithRetry (userOrgs p)
             (UsersOrgsUrl username', getGithubHeaders (githubToken config)) 3 1000 of
        (Inl error, tr) \<Rightarrow> ((0, 0), tr)
      | (Inr orgsResponse, tr) \<Rightarrow>
          if \<not> ok orgsResponse then ((0, 0), tr)
          else
            (case json orgsResponse of
               None \<Rightarrow> ((0, 0), tr)
             | Some orgs \<Rightarrow>
                 (let filteredOrgs = filter (\<lambda>org'. login org' \<notin> set (excludeOrgs config)) orgs;
                      orgReposResults = awaitAll (orgReposTask p config) filteredOrgs
                  in case flattenOrgRepos config since maxRepos (fst orgReposResults) [] of
                       Inl error \<Rightarrow> ((0, 0), tr @ snd orgReposResults)
                     | Inr allOrgRepos \<Rightarrow>
                         after (tr @ snd orgReposResults)
                           (orgBatches p username' config since maxRepos allOrgRepos 0 (0, 0)))))"

subsection \<open>getCommitCount\<close>

text \<open>The mutable variables of the function.\<close>

record Tally =
  totalCommits :: int
  processedRepos :: int
  repoSources :: Sources

text \<open>\<^verbatim>\<open>repos.filter(...).slice(0, 20)\<close>; the filter reads \<^verbatim>\<open>processedRepos\<close> as it is then.\<close>

definition reposToProcessOf :: "Config \<Rightarrow> int \<Rightarrow> Tally \<Rightarrow> GitHubRepo list \<Rightarrow> GitHubRepo list" where
  "reposToProcessOf config since tally repos =
     slice (filter (\<lambda>repo.
                      if processedRepos tally \<ge> 20 then False
                      else if name repo \<in> set (excludeRepos config) then False
                      else updatedSince repo since) repos) 0 20"

text \<open>One element of \<^verbatim>\<open>batchPromises\<close> of the owned pass.\<close>

definition ownedBatchTask ::
  "provider \<Rightarrow> string \<Rightarrow> Config \<Rightarrow> int \<Rightarrow> GitHubRepo \<Rightarrow> int option \<times> event list" where
  "ownedBatchTask p username' config since repo =
     (case getRepoCommits p username' username' (name repo) since (githubToken config) of
        (Inl error, tr) \<Rightarrow> (None, tr)
      | (Inr count, tr) \<Rightarrow> (if count > 0 then Some count else None, tr))"

definition ownedTally :: "Tally \<Rightarrow> int option list \<Rightarrow> Tally" where
  "ownedTally tally results =
     foldl (\<lambda>t result.
              case result of
                None \<Rightarrow> t
              | Some count \<Rightarrow>
                  t\<lparr>totalCommits := totalCommits t + count,
                    repoSources := (repoSources t)\<lparr>owned := owned (repoSources t) + 1\<rparr>,
                    processedRepos := processedRepos t + 1\<rparr>)
       tally results"

function ownedBatches ::
  "provider \<Rightarrow> string \<Rightarrow> Config \<Rightarrow> int \<Rightarrow> GitHubRepo list \<Rightarrow> nat \<Rightarrow> Tally
     \<Rightarrow> Tally \<times> event list" where
  "ownedBatches p username' config since reposToProcess i tally =
     (if i < length reposToProcess then
        (let batch = slice reposToProcess i (i + batchSizeOf config);
             results = awaitAll (ownedBatchTask p username' config since) batch;
             tally' = ownedTally tally (fst results);
             pause = (if i + batchSizeOf config < length reposToProcess
                      then [batchPause config] else [])
         in after (snd results @ pause)
              (ownedBatches p username' config since reposToProcess
                 (i + batchSizeOf config) tally'))
      else (tally, []))"
  by pat_completeness auto
termination
  by (relation "measure (\<lambda>(p, username', config, since, reposToProcess, i, tally).
        length reposToProcess - i)")
     (auto simp: batchSizeOf_def)

declare ownedBatches.simps [simp del]

text \<open>The block \<^verbatim>\<open>if (config.includeOrgRepos && processedRepos < 20) { ... }\<close>.\<close>

definition orgPass ::
  "provider \<Rightarrow> string \<Rightarrow> Config \<Rightarrow> int \<Rightarrow> Tally \<Rightarrow> Tally \<times> event list" where
  "orgPass p username' config since tally =
     (if includeOrgRepos config \<and> processedRepos tally < 20 then
        (let orgResult = getOrgRepoCommits p username' config since (20 - processedRepos tally)
         in (tally\<lparr>totalCommits := totalCommits tally + fst (fst orgResult),
                   repoSources := (repoSources tally)\<lparr>org := snd (fst orgResult)\<rparr>,
                   processedRepos := processedRepos tally + snd (fst orgResult)\<rparr>,
             snd orgResult))
      else (tally, []))"

text \<open>
  \<open>now\<close> is the instant \<^verbatim>\<open>new Date()\<close> reads; \<^verbatim>\<open>setDate(getDate() - monitoringDays)\<close>
  moves it back by whole days (the local time zone being UTC). The request for the owned
  repositories and its \<^verbatim>\<open>json()\<close> are outside any \<^verbatim>\<open>try\<close>: their errors leave the function.
\<close>

definition getCommitCount ::
  "provider \<Rightarrow> int \<Rightarrow> string \<Rightarrow> int \<Rightarrow> Config \<Rightarrow> (js_error + CommitCount) \<times> event list" where
  "getCommitCount p now username' monitoringDays' config =
     (let since = now - monitoringDays' * msPerDay;
          tally0 = \<lparr>totalCommits = 0, processedRepos = 0, repoSources = \<lparr>owned = 0, org = 0\<rparr>\<rparr>
      in case fetchWithRetry (userRepos p)
                (UsersReposUrl username', getGithubHeaders (githubToken config)) 3 1000 of
           (Inl error, tr) \<Rightarrow> (Inl error, tr)
         | (Inr ownedRepos, tr) \<Rightarrow>
             (case (if ok ownedRepos then
                      (case json ownedRepos of
                         None \<Rightarrow> Inl BodyError
                       | Some repos \<Rightarrow>
                           Inr (ownedBatches p username' config since
                                  (reposToProcessOf config since tally0 repos) 0 tally0))
                    else Inr (tally0, [])) of
                Inl error \<Rightarrow> (Inl error, tr)
              | Inr ownedDone \<Rightarrow>
                  (let orgDone = orgPass p username' config since (fst ownedDone)
                   in (Inr \<lparr>commits = totalCommits (fst orgDone),
                             sources = repoSources (fst orgDone)\<rparr>,
                       tr @ snd ownedDone @ snd orgDone))))"

section \<open>cache.ts and index.ts: the cache controller\<close>

text \<open>
  The key-value namespace holds, under a key, the value put there with its
  \<^verbatim>\<open>expirationTtl\<close>. Expiry is the store's own business: a request sees the store as it
  is when it arrives.
\<close>

type_synonym kv = "string \<rightharpoonup> CacheData \<times> int"

definition snapshotOf :: "CommitCount \<Rightarrow> Config \<Rightarrow> int \<Rightarrow> CacheData" where
  "snapshotOf result config now =
     \<lparr>commits = commits result, sources = sources result,
      status = getHealthStatus (commits result) (healthyThreshold config) (moderateThreshold config),
      lastUpdated = now\<rparr>"

text \<open>
  \<^verbatim>\<open>updateCacheInBackground\<close>: the whole body is in a \<^verbatim>\<open>try\<close> whose \<^verbatim>\<open>catch\<close> only logs.
  The result is the store afterwards and the trace of the run.
\<close>

definition updateCacheInBackground ::
  "provider \<Rightarrow> int \<Rightarrow> kv \<Rightarrow> Config \<Rightarrow> string \<Rightarrow> kv \<times> event list" where
  "updateCacheInBackground p now store config cacheKey =
     (if isBotAccount (Some (username config)) None None then (store, [])
      else
        (case getCommitCount p now (username config) (monitoringDays config) config of
           (Inl error, tr) \<Rightarrow> (store, tr)
         | (Inr result, tr) \<Rightarrow>
             (store(cacheKey \<mapsto> (snapshotOf result config now, cacheTTL config)), tr)))"

text \<open>
  The part of \<^verbatim>\<open>updateCacheInBackground\<close> that runs when it is called, before its first
  \<^verbatim>\<open>await\<close>: the bot check and, past it, \<^verbatim>\<open>getCommitCount\<close> up to the first call of
  \<^verbatim>\<open>fetch\<close> inside \<^verbatim>\<open>fetchWithRetry\<close>, the request for the owned repositories. These are
  the first events of the run.
\<close>

definition updateCacheInBackground_start :: "Config \<Rightarrow> event list" where
  "updateCacheInBackground_start config =
     (if isBotAccount (Some (username config)) None None then []
      else [Fetch (UsersReposUrl (username config), getGithubHeaders (githubToken config)) 0])"

subsection \<open>badge.ts\<close>

definition VALID_BADGE_STYLES :: "string list" where
  "VALID_BADGE_STYLES = [''flat'', ''flat-square'', ''plastic'', ''for-the-badge'', ''social'']"

text \<open>
  \<^verbatim>\<open>isValidBadgeStyle\<close> reads the name \<^verbatim>\<open>VALID_BADGE_STYLES\<close>. The single-file
  \<^verbatim>\<open>index.ts\<close> (lines 1 to 646) declares the table itself. \<^verbatim>\<open>badge.ts\<close> imports it with
  \<^verbatim>\<open>import type\<close>: the import is erased when the module is built, the name is not bound
  when the function runs, and reading it throws. \<open>binding\<close> is what the name is bound to
  where the function is defined: the table in the single file, nothing in \<^verbatim>\<open>badge.ts\<close>.
\<close>

definition isValidBadgeStyle :: "string list option \<Rightarrow> string \<Rightarrow> js_error + bool" where
  "isValidBadgeStyle binding style =
     (case binding of
        None \<Rightarrow> Inl (ReferenceError ''VALID_BADGE_STYLES'')
      | Some styles \<Rightarrow> Inr (style \<in> set styles))"

subsection \<open>The handler of /badge\<close>

text \<open>
  The response of the handler is a text with a status code, or the badge made from a
  status, a count and a style, with the \<^verbatim>\<open>X-Username\<close> header. \<open>badgeOf\<close> is the last step
  of the handler, from reading the \<^verbatim>\<open>style\<close> parameter to \<^verbatim>\<open>new Response(svg, ...)\<close>; it
  throws when \<^verbatim>\<open>isValidBadgeStyle\<close> does.
\<close>

datatype http_response =
    TextResponse string int
  | BadgeResponse HealthStatus int string string

definition badgeOf ::
  "string list option \<Rightarrow> CacheData \<Rightarrow> Config \<Rightarrow> string option \<Rightarrow> js_error + http_response" where
  "badgeOf binding data config style =
     (let styleParam = (if truthy style then orEmpty style else ''flat'') in
      case isValidBadgeStyle binding styleParam of
        Inl error \<Rightarrow> Inl error
      | Inr valid \<Rightarrow>
          Inr (BadgeResponse (status data) (commits data)
                 (if valid then styleParam else ''flat'') (username config)))"

text \<open>The \<^verbatim>\<open>catch\<close> of the handler answers any error thrown in its \<^verbatim>\<open>try\<close> with a 500.\<close>

definition orError :: "js_error + http_response \<Rightarrow> http_response" where
  "orError outcome =
     (case outcome of
        Inl error \<Rightarrow> TextResponse ''Error generating badge'' 500
      | Inr answer \<Rightarrow> answer)"

text \<open>
  The handler of \<^verbatim>\<open>GET /badge\<close> is the same text in the single-file \<^verbatim>\<open>index.ts\<close> (lines
  547 to 634) and in the modular one (lines 658 to 743); the two differ by the
  \<^verbatim>\<open>isValidBadgeStyle\<close> in scope, that is by \<open>binding\<close>. \<open>scheduled\<close> lists the runs handed
  to \<^verbatim>\<open>executionCtx.waitUntil\<close>. Such a run is started by the handler itself, so its first
  events are in the handler's trace; it completes after the response, and the whole run is
  \<open>runBackground\<close>. The configuration is taken as \<^verbatim>\<open>getConfig\<close> returns it (a missing
  username is the empty string), the clock is read once per run, and the store neither
  fails nor holds a value that is not a snapshot.
\<close>

datatype background = UpdateCache Config string

record handled =
  response :: http_response
  storeAfter :: kv
  trace :: "event list"
  scheduled :: "background list"

definition badgeHandler ::
  "string list option \<Rightarrow> provider \<Rightarrow> int \<Rightarrow> kv \<Rightarrow> Config \<Rightarrow> string option \<Rightarrow> handled" where
  "badgeHandler binding p now store config style =
     (if username config = [] then
        \<lparr>response = TextResponse ''GITHUB_USERNAME not configured'' 500,
         storeAfter = store, trace = [], scheduled = []\<rparr>
      else
        (let cacheKey = ''github-health:'' @ username config in
         case store cacheKey of
           Some cached \<Rightarrow>
             if shouldUpdateCache now (lastUpdated (fst cached)) (jstUpdateHour config) then
               \<lparr>response = orError (badgeOf binding (fst cached) config style),
                storeAfter = store, trace = updateCacheInBackground_start config,
                scheduled = [UpdateCache config cacheKey]\<rparr>
             else
               \<lparr>response = orError (badgeOf binding (fst cached) config style),
                storeAfter = store, trace = [], scheduled = []\<rparr>
         | None \<Rightarrow>
             if isBotAccount (Some (username config)) None None then
               \<lparr>response = TextResponse ''Bot users are not supported'' 400,
                storeAfter = store, trace = [], scheduled = []\<rparr>
             else
               (case getCommitCount p now (username config) (monitoringDays config) config of
                  (Inl error, tr) \<Rightarrow>
                    \<lparr>response = TextResponse ''Error generating badge'' 500,
                     storeAfter = store, trace = tr, scheduled = []\<rparr>
                | (Inr result, tr) \<Rightarrow>
                    \<lparr>response = orError (badgeOf binding (snapshotOf result config now) config style),
                     storeAfter = store(cacheKey \<mapsto> (snapshotOf result config now, cacheTTL config)),
                     trace = tr, scheduled = []\<rparr>)))"

text \<open>The modular handler, with \<^verbatim>\<open>badge.ts\<close>, and the handler of the single file.\<close>

definition badge ::
  "provider \<Rightarrow> int \<Rightarrow> kv \<Rightarrow> Config \<Rightarrow> string option \<Rightarrow> handled" where
  "badge = badgeHandler None"

definition badgeSingleFile ::
  "provider \<Rightarrow> int \<Rightarrow> kv \<Rightarrow> Config \<Rightarrow> string option \<Rightarrow> handled" where
  "badgeSingleFile = badgeHandler (Some VALID_BADGE_STYLES)"

text \<open>The whole run of what was scheduled, against the store, ending at a later instant.\<close>

definition runBackground :: "provider \<Rightarrow> int \<Rightarrow> kv \<Rightarrow> background \<Rightarrow> kv \<times> event list" where
  "runBackground p later store task =
     (case task of UpdateCache config cacheKey \<Rightarrow> updateCacheInBackground p later store config cacheKey)"

section \<open>Vocabulary of the properties\<close>

text \<open>The calendar date of a time value: year, month and day of the month.\<close>

definition calendarDate :: "int \<Rightarrow> int \<times> int \<times> int" where
  "calendarDate t = (YearFromTime t, MonthFromTime t, DateFromTime t)"

text \<open>An attempt that \<^verbatim>\<open>fetchWithRetry\<close> does not return from: a rejection, or a status 429, 403 or 5xx.\<close>

definition retryable :: "'a fetch_outcome \<Rightarrow> bool" where
  "retryable outcome =
     (case outcome of
        Rejected error \<Rightarrow> True
      | Resolved r \<Rightarrow> Response.status r = 429 \<or> Response.status r = 403 \<or> Response.status r \<ge> 500)"

text \<open>The error of the last rejected attempt among the attempts \<open>i, \<dots>, n - 1\<close>, after \<open>start\<close>.\<close>

definition lastRejection ::
  "'a fetch \<Rightarrow> request \<Rightarrow> js_error option \<Rightarrow> nat \<Rightarrow> nat \<Rightarrow> js_error option" where
  "lastRejection fetch req start i n =
     foldl (\<lambda>last j. case fetch req j of Rejected error \<Rightarrow> Some error | Resolved r \<Rightarrow> last)
       start [i..<n]"

text \<open>
  A call of \<^verbatim>\<open>getRepoCommits\<close> shows in the trace as the first attempt of a request for a
  repository's commits; \<open>commitQueries\<close> are those events of a trace.
\<close>

fun isCommitQuery :: "event \<Rightarrow> bool" where
  "isCommitQuery (Fetch (ReposCommitsUrl repoOwner repoName author since, hs) i) = (i = 0)"
| "isCommitQuery (Fetch (UsersOrgsUrl user, hs) i) = False"
| "isCommitQuery (Fetch (OrgsReposUrl orgName n, hs) i) = False"
| "isCommitQuery (Fetch (UsersReposUrl user, hs) i) = False"
| "isCommitQuery (Sleep delay) = False"

definition commitQueries :: "event list \<Rightarrow> event list" where
  "commitQueries tr = filter isCommitQuery tr"

text \<open>
  \<open>MonthFromTime\<close> and \<open>DateFromTime\<close> as functions of the day within the year and of the
  leap flag.
\<close>

definition monthOf :: "int \<Rightarrow> int \<Rightarrow> int" where
  "monthOf d leap =
     (if d < 31 then 0
      else if d < 59 + leap then 1
      else if d < 90 + leap then 2
      else if d < 120 + leap then 3
      else if d < 151 + leap then 4
      else if d < 181 + leap then 5
      else if d < 212 + leap then 6
      else if d < 243 + leap then 7
      else if d < 273 + leap then 8
      else if d < 304 + leap then 9
      else if d < 334 + leap then 10
      else 11)"

definition dateOf :: "int \<Rightarrow> int \<Rightarrow> int" where
  "dateOf d leap =
     (let m = monthOf d leap in
      if m = 0 then d + 1
      else if m = 1 then d - 30
      else if m = 2 then d - 58 - leap
      else if m = 3 then d - 89 - leap
      else if m = 4 then d - 119 - leap
      else if m = 5 then d - 150 - leap
      else if m = 6 then d - 180 - leap
      else if m = 7 then d - 211 - leap
      else if m = 8 then d - 242 - leap
      else if m = 9 then d - 272 - leap
      else if m = 10 then d - 303 - leap
      else d - 333 - leap)"

text \<open>
  Vocabulary of the aggregation invariants. A result of a batch task is \<open>positive\<close> when it
  is \<^verbatim>\<open>null\<close> or a count of at least one. \<open>grows t t' n\<close>: from the tally \<open>t\<close> to \<open>t'\<close> at most
  \<open>n\<close> owned repositories were counted, each adding one to \<open>processedRepos\<close> and at least
  one to \<open>totalCommits\<close>. \<open>orgGrows m t t'\<close> is the same for the pair of the organisation
  pass, which never passes the cap \<open>m\<close>. \<open>tally0\<close> is the tally at the start of a run.
\<close>

definition positive :: "int option \<Rightarrow> bool" where
  "positive result = (case result of None \<Rightarrow> True | Some count \<Rightarrow> count \<ge> 1)"

definition grows :: "Tally \<Rightarrow> Tally \<Rightarrow> nat \<Rightarrow> bool" where
  "grows t t' n \<longleftrightarrow>
     owned (repoSources t) \<le> owned (repoSources t') \<and>
     owned (repoSources t') \<le> owned (repoSources t) + int n \<and>
     processedRepos t' - processedRepos t = owned (repoSources t') - owned (repoSources t) \<and>
     totalCommits t' - totalCommits t \<ge> owned (repoSources t') - owned (repoSources t) \<and>
     org (repoSources t') = org (repoSources t)"

definition orgGrows :: "int \<Rightarrow> int \<times> int \<Rightarrow> int \<times> int \<Rightarrow> bool" where
  "orgGrows maxRepos t t' \<longleftrightarrow>
     snd t \<le> snd t' \<and> snd t' \<le> max (snd t) maxRepos \<and> fst t' - fst t \<ge> snd t' - snd t"

definition tally0 :: Tally where
  "tally0 = \<lparr>totalCommits = 0, processedRepos = 0, repoSources = \<lparr>owned = 0, org = 0\<rparr>\<rparr>"

text \<open>
  The bot check as the specification words it, on a subject string: a vendor fragment
  anywhere, a \<open>[bot]\<close> or \<open>-bot\<close> suffix, a \<open>bot-\<close> prefix, or the no-reply address anywhere.
\<close>

definition botCheckAsWorded :: "string \<Rightarrow> bool" where
  "botCheckAsWorded s =
     (sublist ''dependabot'' s \<or> sublist ''renovate'' s \<or> sublist ''greenkeeper'' s \<or>
      sublist ''github-actions'' s \<or> sublist ''codecov'' s \<or> sublist ''snyk'' s \<or>
      sublist ''web-flow'' s \<or>
      suffix ''[bot]'' s \<or> suffix ''-bot'' s \<or> prefix ''bot-'' s \<or>
      sublist ''noreply@github.com'' s)"

section \<open>Example inputs\<close>

text \<open>A provider whose every endpoint settles the same way at every attempt.\<close>

definition always ::
  "GitHubRepo list fetch_outcome \<Rightarrow> GitHubOrg list fetch_outcome
     \<Rightarrow> GitHubRepo list listing fetch_outcome \<Rightarrow> GitHubCommit list fetch_outcome
     \<Rightarrow> provider" where
  "always ownedAnswer orgsAnswer orgReposAnswer commitsAnswer =
     \<lparr>userRepos = (\<lambda>req i. ownedAnswer), userOrgs = (\<lambda>req i. orgsAnswer),
      orgRepos = (\<lambda>req i. orgReposAnswer), repoCommits = (\<lambda>req i. commitsAnswer)\<rparr>"

definition offline :: provider where
  "offline = always (Rejected (NetworkError ''offline'')) (Rejected (NetworkError ''offline''))
               (Rejected (NetworkError ''offline'')) (Rejected (NetworkError ''offline''))"

text \<open>A commit by \<open>author\<close> with one parent, and one by the same author merging two.\<close>

definition commitBy :: "string \<Rightarrow> GitHubCommit" where
  "commitBy author =
     \<lparr>author_login = Some author, author_name = author,
      author_email = ''a@x.io'', parents = [''p1'']\<rparr>"

definition mergeBy :: "string \<Rightarrow> GitHubCommit" where
  "mergeBy author = (commitBy author)\<lparr>parents := [''p1'', ''p2'']\<rparr>"

text \<open>Repositories \<open>repo-a\<close>, \<open>repo-b\<close>, \<dots>, all updated at the instant \<open>t\<close>.\<close>

definition reposNamed :: "nat \<Rightarrow> int \<Rightarrow> GitHubRepo list" where
  "reposNamed n t =
     map (\<lambda>k. \<lparr>name = ''repo-'' @ [char_of (97 + k)], updated_at = Some t\<rparr>) [0..<n]"

definition exampleConfig :: Config where
  "exampleConfig =
     \<lparr>username = ''alice'', healthyThreshold = 15, moderateThreshold = 5, monitoringDays = 14,
      cacheTTL = 86400, jstUpdateHour = 8, githubToken = None, includeOrgRepos = True,
      maxReposPerOrg = 5, excludeRepos = [''dotfiles''], excludeOrgs = []\<rparr>"

text \<open>
  \<open>idle\<close>: twenty owned repositories and four organisations of five repositories each,
  all updated in the window, none holding a commit. \<open>active\<close>: two owned repositories and
  one organisation of one, each repository answering with one commit of alice.
\<close>

definition idle :: provider where
  "idle = always (Resolved (Response 200 None (Some (reposNamed 20 0))))
            (Resolved (Response 200 None
               (Some [\<lparr>login = ''org-a''\<rparr>, \<lparr>login = ''org-b''\<rparr>, \<lparr>login = ''org-c''\<rparr>,
                      \<lparr>login = ''org-d''\<rparr>])))
            (Resolved (Response 200 None (Some (Listing (reposNamed 5 0)))))
            (Resolved (Response 200 None (Some [])))"

definition active :: provider where
  "active = always (Resolved (Response 200 None (Some (reposNamed 2 0))))
              (Resolved (Response 200 None (Some [\<lparr>login = ''acme''\<rparr>])))
              (Resolved (Response 200 None (Some (Listing (reposNamed 1 0)))))
              (Resolved (Response 200 None (Some [commitBy ''alice''])))"

text \<open>A configuration whose monitored identity looks like a bot, and a stored snapshot.\<close>

definition botConfig :: Config where
  "botConfig = exampleConfig\<lparr>username := ''dependabot''\<rparr>"

definition storedSnapshot :: "int \<Rightarrow> CacheData" where
  "storedSnapshot t =
     \<lparr>commits = 20, sources = \<lparr>owned = 3, org = 0\<rparr>, status = healthy, lastUpdated = t\<rparr>"

text \<open>A retry sequence: rate limited with a hint, then a server error, then a rejection.\<close>

definition flaky :: "unit fetch" where
  "flaky req i =
     (if i = 0 then Resolved (Response 429 (Some ''2'') None)
      else if i = 1 then Resolved (Response 503 None None)
      else Rejected (NetworkError ''reset''))"

definition recovering :: "unit fetch" where
  "recovering req i =
     (if i = 0 then Resolved (Response 403 None None)
      else Resolved (Response 404 None (Some ())))"

section \<open>Status classifier\<close>

text \<open>
  Claim C9. For all integer counts and thresholds, \<open>getHealthStatus\<close> answers \<open>healthy\<close>
  exactly when the count reaches the healthy threshold, \<open>moderate\<close> exactly when it does not
  but reaches the moderate threshold, and \<open>inactive\<close> exactly when it reaches neither; both
  boundaries are inclusive. With the thresholds 15 and 5: 20 and 15 are healthy, 10 and 5
  are moderate, 3 is inactive.
\<close>

theorem getHealthStatus_tiers:
  "(getHealthStatus c h m = healthy \<longleftrightarrow> c \<ge> h) \<and>
   (getHealthStatus c h m = moderate \<longleftrightarrow> c < h \<and> c \<ge> m) \<and>
   (getHealthStatus c h m = inactive \<longleftrightarrow> c < h \<and> c < m) \<and>
   getHealthStatus 20 15 5 = healthy \<and> getHealthStatus 15 15 5 = healthy \<and>
   getHealthStatus 10 15 5 = moderate \<and> getHealthStatus 5 15 5 = moderate \<and>
   getHealthStatus 3 15 5 = inactive"
  by (simp add: getHealthStatus_def)

section \<open>Bot check and commit filter\<close>

lemma toLowerChar_idem: "toLowerChar (toLowerChar c) = toLowerChar c"
  unfolding toLowerChar_def Let_def by auto

lemma toLowerCase_idem: "toLowerCase (toLowerCase s) = toLowerCase s"
  by (simp add: toLowerCase_def toLowerChar_idem)

lemma lowercase_literals:
  "toLowerCase ''dependabot'' = ''dependabot''"
  "toLowerCase ''renovate'' = ''renovate''"
  "toLowerCase ''greenkeeper'' = ''greenkeeper''"
  "toLowerCase ''github-actions'' = ''github-actions''"
  "toLowerCase ''codecov'' = ''codecov''"
  "toLowerCase ''snyk'' = ''snyk''"
  "toLowerCase ''web-flow'' = ''web-flow''"
  "toLowerCase ''[bot]'' = ''[bot]''"
  "toLowerCase ''-bot'' = ''-bot''"
  "toLowerCase ''bot-'' = ''bot-''"
  by code_simp+

lemma checkString_lower: "toLowerCase (checkString l n e) = checkString l n e"
  by (simp add: checkString_def toLowerCase_idem)

lemma checkString_blank:
  "\<not> truthy l \<Longrightarrow> \<not> truthy n \<Longrightarrow> \<not> truthy e \<Longrightarrow> checkString l n e = ''  ''"
  by (auto simp: truthy_def checkString_def orEmpty_def toLowerCase_def toLowerChar_def
      split: option.splits)

lemma blank_matches_nothing: "\<not> list_ex (\<lambda>pattern. test pattern ''  '') botIndicators"
  by code_simp

text \<open>The early return of \<open>isBotAccount\<close> changes nothing: the blank subject matches no pattern.\<close>

lemma isBotAccount_some_pattern:
  "isBotAccount l n e \<longleftrightarrow> list_ex (\<lambda>pattern. test pattern (checkString l n e)) botIndicators"
proof (cases "\<not> truthy l \<and> \<not> truthy n \<and> \<not> truthy e")
  case True
  then have "checkString l n e = ''  ''" by (simp add: checkString_blank)
  with True blank_matches_nothing show ?thesis by (simp add: isBotAccount_def)
next
  case False
  then show ?thesis by (auto simp: isBotAccount_def)
qed

text \<open>
  The check in terms of the check string: the three fields, a missing one taken as empty,
  joined by single spaces and lowercased.
\<close>

lemma isBotAccount_check_string:
  "isBotAccount l n e \<longleftrightarrow>
     (let s = toLowerCase (orEmpty l @ '' '' @ orEmpty n @ '' '' @ orEmpty e) in
        sublist ''dependabot'' s \<or> sublist ''renovate'' s \<or> sublist ''greenkeeper'' s \<or>
        sublist ''github-actions'' s \<or> sublist ''codecov'' s \<or> sublist ''snyk'' s \<or>
        sublist ''web-flow'' s \<or>
        suffix ''[bot]'' s \<or> suffix ''-bot'' s \<or> sublist ''bot-'' s \<or>
        sublist ''noreply@github.com'' s)"
proof -
  have "list_ex (\<lambda>pattern. test pattern (checkString l n e)) botIndicators \<longleftrightarrow>
     (let s = checkString l n e in
        sublist ''dependabot'' s \<or> sublist ''renovate'' s \<or> sublist ''greenkeeper'' s \<or>
        sublist ''github-actions'' s \<or> sublist ''codecov'' s \<or> sublist ''snyk'' s \<or>
        sublist ''web-flow'' s \<or>
        suffix ''[bot]'' s \<or> suffix ''-bot'' s \<or> sublist ''bot-'' s \<or>
        sublist ''noreply@github.com'' s)"
    by (simp add: botIndicators_def test_def lowercase_literals checkString_lower Let_def)
  then show ?thesis
    unfolding isBotAccount_some_pattern checkString_def .
qed


lemma toLowerCase_append: "toLowerCase (a @ b) = toLowerCase a @ toLowerCase b"
  by (simp add: toLowerCase_def)

lemma toLowerCase_Cons: "toLowerCase (c # s) = toLowerChar c # toLowerCase s"
  by (simp add: toLowerCase_def)

lemma toLowerChar_space: "toLowerChar CHR '' '' = CHR '' ''"
  by code_simp

lemma suffix_after_space:
  assumes "CHR '' '' \<notin> set x" and "suffix x (a @ CHR '' '' # c)"
  shows "suffix x c"
proof -
  from assms(2) have "suffix x (CHR '' '' # c) \<or> (\<exists>x'. x = x' @ CHR '' '' # c \<and> suffix x' a)"
    by (simp add: suffix_append)
  with assms(1) have "suffix x (CHR '' '' # c)" by auto
  then have "x = CHR '' '' # c \<or> suffix x c" by (simp add: suffix_Cons)
  with assms(1) show ?thesis by auto
qed

lemma suffix_of_check_string:
  assumes "CHR '' '' \<notin> set x"
    and "suffix x (toLowerCase (orEmpty l @ '' '' @ orEmpty n @ '' '' @ orEmpty e))"
  shows "suffix x (toLowerCase (orEmpty e))"
proof -
  have "toLowerCase (orEmpty l @ '' '' @ orEmpty n @ '' '' @ orEmpty e) =
      (toLowerCase (orEmpty l) @ CHR '' '' # toLowerCase (orEmpty n)) @
        CHR '' '' # toLowerCase (orEmpty e)"
    by (simp add: toLowerCase_append toLowerCase_Cons toLowerChar_space)
  with assms show ?thesis by (auto dest: suffix_after_space)
qed

text \<open>
  Claim C4, as the code has it. For every triple of optional identity fields, with the
  check string made of the three fields (a missing one taken as empty) joined by single
  spaces and lowercased: \<open>isBotAccount\<close> is true whenever the check string contains one of
  the seven vendor fragments, or contains \<open>bot-\<close> anywhere (the pattern is not anchored, it
  is no prefix test), or contains \<open>noreply@github.com\<close>, or ends with \<open>[bot]\<close> or \<open>-bot\<close>;
  and whenever it is true, one of those substrings occurs in the check string, or one of
  the three fields ends with \<open>[bot]\<close> or \<open>-bot\<close>. Which endings the two anchored patterns
  see is a matter of the joining and stays open here.
\<close>

theorem isBotAccount_patterns:
  "((let s = toLowerCase (orEmpty l @ '' '' @ orEmpty n @ '' '' @ orEmpty e) in
       sublist ''dependabot'' s \<or> sublist ''renovate'' s \<or> sublist ''greenkeeper'' s \<or>
       sublist ''github-actions'' s \<or> sublist ''codecov'' s \<or> sublist ''snyk'' s \<or>
       sublist ''web-flow'' s \<or> sublist ''bot-'' s \<or> sublist ''noreply@github.com'' s \<or>
       suffix ''[bot]'' s \<or> suffix ''-bot'' s)
     \<longrightarrow> isBotAccount l n e) \<and>
   (isBotAccount l n e \<longrightarrow>
     (let s = toLowerCase (orEmpty l @ '' '' @ orEmpty n @ '' '' @ orEmpty e) in
       sublist ''dependabot'' s \<or> sublist ''renovate'' s \<or> sublist ''greenkeeper'' s \<or>
       sublist ''github-actions'' s \<or> sublist ''codecov'' s \<or> sublist ''snyk'' s \<or>
       sublist ''web-flow'' s \<or> sublist ''bot-'' s \<or> sublist ''noreply@github.com'' s) \<or>
     suffix ''[bot]'' (toLowerCase (orEmpty l)) \<or> suffix ''-bot'' (toLowerCase (orEmpty l)) \<or>
     suffix ''[bot]'' (toLowerCase (orEmpty n)) \<or> suffix ''-bot'' (toLowerCase (orEmpty n)) \<or>
     suffix ''[bot]'' (toLowerCase (orEmpty e)) \<or> suffix ''-bot'' (toLowerCase (orEmpty e)))"
proof (intro conjI impI)
  assume "let s = toLowerCase (orEmpty l @ '' '' @ orEmpty n @ '' '' @ orEmpty e) in
       sublist ''dependabot'' s \<or> sublist ''renovate'' s \<or> sublist ''greenkeeper'' s \<or>
       sublist ''github-actions'' s \<or> sublist ''codecov'' s \<or> sublist ''snyk'' s \<or>
       sublist ''web-flow'' s \<or> sublist ''bot-'' s \<or> sublist ''noreply@github.com'' s \<or>
       suffix ''[bot]'' s \<or> suffix ''-bot'' s"
  then show "isBotAccount l n e"
    unfolding isBotAccount_check_string Let_def by blast
next
  assume "isBotAccount l n e"
  then have "(let s = toLowerCase (orEmpty l @ '' '' @ orEmpty n @ '' '' @ orEmpty e) in
       sublist ''dependabot'' s \<or> sublist ''renovate'' s \<or> sublist ''greenkeeper'' s \<or>
       sublist ''github-actions'' s \<or> sublist ''codecov'' s \<or> sublist ''snyk'' s \<or>
       sublist ''web-flow'' s \<or> sublist ''bot-'' s \<or> sublist ''noreply@github.com'' s) \<or>
     suffix ''[bot]'' (toLowerCase (orEmpty l @ '' '' @ orEmpty n @ '' '' @ orEmpty e)) \<or>
     suffix ''-bot'' (toLowerCase (orEmpty l @ '' '' @ orEmpty n @ '' '' @ orEmpty e))"
    unfolding isBotAccount_check_string Let_def by blast
  moreover have "suffix ''[bot]'' (toLowerCase (orEmpty e))"
    if "suffix ''[bot]'' (toLowerCase (orEmpty l @ '' '' @ orEmpty n @ '' '' @ orEmpty e))"
    using that by (intro suffix_of_check_string[of "''[bot]''" l n e]) simp_all
  moreover have "suffix ''-bot'' (toLowerCase (orEmpty e))"
    if "suffix ''-bot'' (toLowerCase (orEmpty l @ '' '' @ orEmpty n @ '' '' @ orEmpty e))"
    using that by (intro suffix_of_check_string[of "''-bot''" l n e]) simp_all
  ultimately show "(let s = toLowerCase (orEmpty l @ '' '' @ orEmpty n @ '' '' @ orEmpty e) in
       sublist ''dependabot'' s \<or> sublist ''renovate'' s \<or> sublist ''greenkeeper'' s \<or>
       sublist ''github-actions'' s \<or> sublist ''codecov'' s \<or> sublist ''snyk'' s \<or>
       sublist ''web-flow'' s \<or> sublist ''bot-'' s \<or> sublist ''noreply@github.com'' s) \<or>
     suffix ''[bot]'' (toLowerCase (orEmpty l)) \<or> suffix ''-bot'' (toLowerCase (orEmpty l)) \<or>
     suffix ''[bot]'' (toLowerCase (orEmpty n)) \<or> suffix ''-bot'' (toLowerCase (orEmpty n)) \<or>
     suffix ''[bot]'' (toLowerCase (orEmpty e)) \<or> suffix ''-bot'' (toLowerCase (orEmpty e))"
    by blast
qed

text \<open>
  A login that contains a vendor fragment, whatever its case; and an email that ends with
  \<open>-bot\<close>.
\<close>

theorem isBotAccount_patterns_witness:
  "sublist ''renovate'' (toLowerCase (orEmpty (Some ''Renovate-Bot'') @ '' '' @ orEmpty None @ '' '' @ orEmpty None)) \<and>
   isBotAccount (Some ''Renovate-Bot'') None None \<and>
   isBotAccount (Some ''ci'') (Some ''CI'') (Some ''ci@tools-bot'') \<and>
   suffix ''-bot'' (toLowerCase (orEmpty (Some ''ci@tools-bot'')))"
proof -
  have a: "sublist ''renovate'' (toLowerCase (orEmpty (Some ''Renovate-Bot'') @ '' '' @ orEmpty None @ '' '' @ orEmpty None))"
    by code_simp
  then have b: "isBotAccount (Some ''Renovate-Bot'') None None"
    using isBotAccount_patterns[of "Some ''Renovate-Bot''" None None] by (simp add: Let_def)
  have c: "isBotAccount (Some ''ci'') (Some ''CI'') (Some ''ci@tools-bot'')"
    by code_simp
  have d: "suffix ''-bot'' (toLowerCase (orEmpty (Some ''ci@tools-bot'')))"
    by code_simp
  from a b c d show ?thesis by simp
qed

text \<open>
  The login \<open>robot-arm\<close>, with no name and no email, is flagged by the code, for it contains
  \<open>bot-\<close>; the condition as worded (with a \<open>bot-\<close> prefix) fails on it, whether the fields
  are joined by spaces or not. The login \<open>helper[bot]\<close>, with no name and no email, is not
  flagged, for the check string ends with the two joining spaces; the condition as worded
  holds of the plain concatenation.
\<close>

theorem isBotAccount_prefix_counterexample:
  "isBotAccount (Some ''robot-arm'') None None \<and>
   \<not> botCheckAsWorded (toLowerCase (''robot-arm'' @ '' '' @ [] @ '' '' @ [])) \<and>
   \<not> botCheckAsWorded (toLowerCase (''robot-arm'' @ [] @ [])) \<and>
   \<not> isBotAccount (Some ''helper[bot]'') None None \<and>
   botCheckAsWorded (toLowerCase (''helper[bot]'' @ [] @ []))"
  by code_simp


section \<open>Repository commit counter\<close>

lemma getRepoCommits_cases:
  "fst (getRepoCommits p u ow rn since token) =
     (case fst (fetchWithRetry (repoCommits p)
             (ReposCommitsUrl ow rn u since, getGithubHeaders token) 3 500) of
        Inl e \<Rightarrow> Inr 0
      | Inr r \<Rightarrow> if ok r then (case json r of None \<Rightarrow> Inr 0
                     | Some cs \<Rightarrow> Inr (int (length (filter (commitFilter u) cs))))
                 else Inr 0)"
  by (simp add: getRepoCommits_def getRepoCommits_try_def
      split: prod.splits sum.splits option.splits)

text \<open>
  Claim C7. \<open>getRepoCommits\<close> never throws: for every input it returns a count, and the
  count is zero when \<open>fetchWithRetry\<close> throws (its retries exhausted), when the response is
  not ok, and when the body of an ok response cannot be read.
\<close>

theorem getRepoCommits_never_throws:
  "(\<exists>count. fst (getRepoCommits p u ow rn since token) = Inr count \<and> 0 \<le> count) \<and>
   (\<forall>e. fst (fetchWithRetry (repoCommits p)
             (ReposCommitsUrl ow rn u since, getGithubHeaders token) 3 500) = Inl e
        \<longrightarrow> fst (getRepoCommits p u ow rn since token) = Inr 0) \<and>
   (\<forall>r. fst (fetchWithRetry (repoCommits p)
             (ReposCommitsUrl ow rn u since, getGithubHeaders token) 3 500) = Inr r \<and> \<not> ok r
        \<longrightarrow> fst (getRepoCommits p u ow rn since token) = Inr 0) \<and>
   (\<forall>r. fst (fetchWithRetry (repoCommits p)
             (ReposCommitsUrl ow rn u since, getGithubHeaders token) 3 500) = Inr r \<and> ok r \<and>
         json r = None
        \<longrightarrow> fst (getRepoCommits p u ow rn since token) = Inr 0)"
  unfolding getRepoCommits_cases by (auto split: sum.splits option.splits)

text \<open>
  The three failures at concrete providers: every request rejected; the commits request
  answered 404; the commits request answered 200 with an unreadable body.
\<close>

theorem getRepoCommits_never_throws_witness:
  "fst (fetchWithRetry (repoCommits offline)
          (ReposCommitsUrl ''acme'' ''site'' ''alice'' 0, getGithubHeaders None) 3 500)
     = Inl (NetworkError ''offline'') \<and>
   fst (getRepoCommits offline ''alice'' ''acme'' ''site'' 0 None) = Inr 0 \<and>
   \<not> ok (Response 404 None (None :: GitHubCommit list option)) \<and>
   fst (getRepoCommits
          (always (Rejected BodyError) (Rejected BodyError) (Rejected BodyError)
             (Resolved (Response 404 None None)))
          ''alice'' ''acme'' ''site'' 0 None) = Inr 0 \<and>
   ok (Response 200 None (None :: GitHubCommit list option)) \<and>
   fst (getRepoCommits
          (always (Rejected BodyError) (Rejected BodyError) (Rejected BodyError)
             (Resolved (Response 200 None None)))
          ''alice'' ''acme'' ''site'' 0 None) = Inr 0"
proof -
  let ?req = "(ReposCommitsUrl ''acme'' ''site'' ''alice'' 0, getGithubHeaders None)"
  let ?p404 = "always (Rejected BodyError) (Rejected BodyError) (Rejected BodyError)
             (Resolved (Response 404 None None))"
  let ?p200 = "always (Rejected BodyError) (Rejected BodyError) (Rejected BodyError)
             (Resolved (Response 200 None None))"
  have a: "fst (fetchWithRetry (repoCommits offline) ?req 3 500) = Inl (NetworkError ''offline'')"
    by code_simp
  have b: "fst (fetchWithRetry (repoCommits ?p404) ?req 3 500) = Inr (Response 404 None None)"
    by code_simp
  have c: "fst (fetchWithRetry (repoCommits ?p200) ?req 3 500) = Inr (Response 200 None None)"
    by code_simp
  have nok: "\<not> ok (Response 404 None (None :: GitHubCommit list option))"
    and isok: "ok (Response 200 None (None :: GitHubCommit list option))"
    by (simp_all add: ok_def)
  have "fst (getRepoCommits offline ''alice'' ''acme'' ''site'' 0 None) = Inr 0"
    using getRepoCommits_never_throws[of offline "''alice''" "''acme''" "''site''" 0 None] a
    by blast
  moreover have "fst (getRepoCommits ?p404 ''alice'' ''acme'' ''site'' 0 None) = Inr 0"
    using getRepoCommits_never_throws[of ?p404 "''alice''" "''acme''" "''site''" 0 None] b nok
    by blast
  moreover have "fst (getRepoCommits ?p200 ''alice'' ''acme'' ''site'' 0 None) = Inr 0"
    using getRepoCommits_never_throws[of ?p200 "''alice''" "''acme''" "''site''" 0 None] c isok
    by (metis Response.sel(3))
  ultimately show ?thesis using a nok isok by simp
qed

section \<open>Rate-limited fetch client\<close>

text \<open>One step of the loop, by the way attempt \<open>i\<close> settles.\<close>

lemma fetchLoop_done:
  "\<not> i < m \<Longrightarrow> fetchLoop fetch req m d i le =
     (Inl (case le of Some e \<Rightarrow> e | None \<Rightarrow> FailedAfterRetries (fst req) m), [])"
  by (subst fetchLoop.simps) simp

lemma fetchLoop_rejected:
  "i < m \<Longrightarrow> fetch req i = Rejected e \<Longrightarrow> fetchLoop fetch req m d i le =
     after [Fetch req i, Sleep (Some (d * 2 ^ i))] (fetchLoop fetch req m d (i + 1) (Some e))"
  by (subst fetchLoop.simps) simp

lemma fetchLoop_rate_hint:
  "i < m \<Longrightarrow> fetch req i = Resolved r \<Longrightarrow> Response.status r = 429 \<or> Response.status r = 403 \<Longrightarrow>
   retryAfterHeader r = Some s \<Longrightarrow> s \<noteq> [] \<Longrightarrow>
   fetchLoop fetch req m d i le =
     after [Fetch req i, Sleep (map_option (\<lambda>n. n * 1000) (parseInt s))]
       (fetchLoop fetch req m d (i + 1) le)"
  by (subst fetchLoop.simps) auto

lemma fetchLoop_rate_backoff:
  "i < m \<Longrightarrow> fetch req i = Resolved r \<Longrightarrow> Response.status r = 429 \<or> Response.status r = 403 \<Longrightarrow>
   \<not> truthy (retryAfterHeader r) \<Longrightarrow>
   fetchLoop fetch req m d i le =
     after [Fetch req i, Sleep (Some (d * 2 ^ i))] (fetchLoop fetch req m d (i + 1) le)"
  by (subst fetchLoop.simps) (auto simp: truthy_def split: option.splits)

lemma fetchLoop_server_error:
  "i < m \<Longrightarrow> fetch req i = Resolved r \<Longrightarrow> Response.status r \<ge> 500 \<Longrightarrow>
   fetchLoop fetch req m d i le =
     after [Fetch req i, Sleep (Some (d * 2 ^ i))] (fetchLoop fetch req m d (i + 1) le)"
  by (subst fetchLoop.simps) auto

lemma fetchLoop_return:
  "i < m \<Longrightarrow> fetch req i = Resolved r \<Longrightarrow> \<not> retryable (Resolved r) \<Longrightarrow>
   fetchLoop fetch req m d i le = (Inr r, [Fetch req i])"
  by (subst fetchLoop.simps) (auto simp: retryable_def)

lemma fetchLoop_retry_fst:
  "i < m \<Longrightarrow> retryable (fetch req i) \<Longrightarrow>
   fst (fetchLoop fetch req m d i le) =
     fst (fetchLoop fetch req m d (i + 1)
            (case fetch req i of Rejected e \<Rightarrow> Some e | Resolved r \<Rightarrow> le))"
  by (subst fetchLoop.simps) (auto simp: retryable_def after_def split: fetch_outcome.splits)

lemma fetchLoop_exhausted:
  "\<forall>j. i \<le> j \<and> j < m \<longrightarrow> retryable (fetch req j) \<Longrightarrow>
   fst (fetchLoop fetch req m d i le) =
     Inl (case lastRejection fetch req le i m of
            Some e \<Rightarrow> e | None \<Rightarrow> FailedAfterRetries (fst req) m)"
proof (induction "m - i" arbitrary: i le)
  case 0
  then have "\<not> i < m" by simp
  then show ?case by (simp add: fetchLoop_done lastRejection_def)
next
  case (Suc n)
  then have lt: "i < m" and r: "retryable (fetch req i)" by auto
  have IH: "fst (fetchLoop fetch req m d (i + 1) le') =
     Inl (case lastRejection fetch req le' (i + 1) m of
            Some e \<Rightarrow> e | None \<Rightarrow> FailedAfterRetries (fst req) m)" for le'
    using Suc.hyps(1)[of "i + 1" le'] Suc.hyps(2) Suc.prems by auto
  have unf: "lastRejection fetch req le i m =
      lastRejection fetch req (case fetch req i of Rejected e \<Rightarrow> Some e | Resolved r \<Rightarrow> le) (i + 1) m"
    using lt by (simp add: lastRejection_def upt_conv_Cons)
  show ?case
    unfolding fetchLoop_retry_fst[where fetch=fetch and req=req, OF lt r] IH unf ..
qed

lemma fetchLoop_first_final:
  "i \<le> k \<Longrightarrow> k < m \<Longrightarrow> \<forall>j. i \<le> j \<and> j < k \<longrightarrow> retryable (fetch req j) \<Longrightarrow>
   fetch req k = Resolved r \<Longrightarrow> \<not> retryable (Resolved r) \<Longrightarrow>
   fst (fetchLoop fetch req m d i le) = Inr r"
proof (induction "k - i" arbitrary: i le)
  case 0
  then have "i = k" by simp
  with 0 show ?case by (simp add: fetchLoop_return)
next
  case (Suc n)
  then have lt: "i < m" "i < k" and r: "retryable (fetch req i)" by auto
  have "fst (fetchLoop fetch req m d (i + 1) le') = Inr r" for le'
    using Suc.hyps(1)[of "i + 1" le'] Suc.hyps(2) Suc.prems by auto
  then show ?case
    unfolding fetchLoop_retry_fst[where fetch=fetch and req=req, OF lt(1) r] .
qed

text \<open>
  Claim C6. In \<open>fetchWithRetry\<close>, at an attempt \<open>i\<close> within the budget: a response with
  status 429 or 403 is followed by a sleep of \<open>parseInt(retry-after) * 1000\<close> ms when the
  \<^verbatim>\<open>retry-after\<close> header has a (non-empty) value, and of \<open>initialDelay * 2 ^ i\<close> ms otherwise,
  and then by the next attempt; a status of 500 or more, and a rejected \<^verbatim>\<open>fetch\<close>, are
  followed by the sleep \<open>initialDelay * 2 ^ i\<close> and the next attempt, the rejection becoming
  the last error; a response with any other status is returned at once. Over the whole
  run: the first response that needs no retry, when there is one within the budget, is the
  result; when every attempt of the budget needs a retry, the function throws the error of
  the last rejected attempt, or the synthetic error when no attempt was rejected.
\<close>

theorem fetchWithRetry_policy:
  "(i < maxRetries \<and> fetch req i = Resolved r \<and> (Response.status r = 429 \<or> Response.status r = 403) \<and>
      retryAfterHeader r = Some s \<and> s \<noteq> [] \<longrightarrow>
      fetchLoop fetch req maxRetries initialDelay i lastError =
        after [Fetch req i, Sleep (map_option (\<lambda>n. n * 1000) (parseInt s))]
          (fetchLoop fetch req maxRetries initialDelay (i + 1) lastError)) \<and>
   (i < maxRetries \<and> fetch req i = Resolved r \<and> (Response.status r = 429 \<or> Response.status r = 403) \<and>
      (retryAfterHeader r = None \<or> retryAfterHeader r = Some []) \<longrightarrow>
      fetchLoop fetch req maxRetries initialDelay i lastError =
        after [Fetch req i, Sleep (Some (initialDelay * 2 ^ i))]
          (fetchLoop fetch req maxRetries initialDelay (i + 1) lastError)) \<and>
   (i < maxRetries \<and> fetch req i = Resolved r \<and> Response.status r \<ge> 500 \<longrightarrow>
      fetchLoop fetch req maxRetries initialDelay i lastError =
        after [Fetch req i, Sleep (Some (initialDelay * 2 ^ i))]
          (fetchLoop fetch req maxRetries initialDelay (i + 1) lastError)) \<and>
   (i < maxRetries \<and> fetch req i = Rejected e \<longrightarrow>
      fetchLoop fetch req maxRetries initialDelay i lastError =
        after [Fetch req i, Sleep (Some (initialDelay * 2 ^ i))]
          (fetchLoop fetch req maxRetries initialDelay (i + 1) (Some e))) \<and>
   (i < maxRetries \<and> fetch req i = Resolved r \<and>
      Response.status r \<noteq> 429 \<and> Response.status r \<noteq> 403 \<and> Response.status r < 500 \<longrightarrow>
      fetchLoop fetch req maxRetries initialDelay i lastError = (Inr r, [Fetch req i])) \<and>
   (k < maxRetries \<and> (\<forall>j<k. retryable (fetch req j)) \<and> fetch req k = Resolved r \<and>
      \<not> retryable (Resolved r) \<longrightarrow>
      fst (fetchWithRetry fetch req maxRetries initialDelay) = Inr r) \<and>
   ((\<forall>j<maxRetries. retryable (fetch req j)) \<longrightarrow>
      fst (fetchWithRetry fetch req maxRetries initialDelay) =
        Inl (case lastRejection fetch req None 0 maxRetries of
               Some error \<Rightarrow> error
             | None \<Rightarrow> FailedAfterRetries (fst req) maxRetries))"
proof (intro conjI impI)
  assume "k < maxRetries \<and> (\<forall>j<k. retryable (fetch req j)) \<and> fetch req k = Resolved r \<and>
      \<not> retryable (Resolved r)"
  then show "fst (fetchWithRetry fetch req maxRetries initialDelay) = Inr r"
    unfolding fetchWithRetry_def by (intro fetchLoop_first_final[of 0 k]) auto
next
  assume "\<forall>j<maxRetries. retryable (fetch req j)"
  then show "fst (fetchWithRetry fetch req maxRetries initialDelay) =
        Inl (case lastRejection fetch req None 0 maxRetries of
               Some error \<Rightarrow> error
             | None \<Rightarrow> FailedAfterRetries (fst req) maxRetries)"
    unfolding fetchWithRetry_def by (intro fetchLoop_exhausted) auto
qed (auto simp: fetchLoop_rate_hint fetchLoop_rate_backoff fetchLoop_server_error
       fetchLoop_rejected fetchLoop_return retryable_def truthy_def)

text \<open>
  Two runs with a budget of 3 and an initial delay of 1000 ms. \<open>flaky\<close> answers 429 with
  the hint 2, then 503, then rejects: the run sleeps 2000, 2000 and 4000 ms and throws the
  rejection. \<open>recovering\<close> answers 403 with no hint, then 404: the run sleeps 1000 ms and
  returns the 404 response.
\<close>

theorem fetchWithRetry_policy_witness:
  "fetchWithRetry flaky (UsersOrgsUrl ''alice'', []) 3 1000 =
     (Inl (NetworkError ''reset''),
      [Fetch (UsersOrgsUrl ''alice'', []) 0, Sleep (Some 2000),
       Fetch (UsersOrgsUrl ''alice'', []) 1, Sleep (Some 2000),
       Fetch (UsersOrgsUrl ''alice'', []) 2, Sleep (Some 4000)]) \<and>
   fetchWithRetry recovering (UsersOrgsUrl ''alice'', []) 3 1000 =
     (Inr (Response 404 None (Some ())),
      [Fetch (UsersOrgsUrl ''alice'', []) 0, Sleep (Some 1000),
       Fetch (UsersOrgsUrl ''alice'', []) 1])"
proof -
  let ?req = "(UsersOrgsUrl ''alice'', [])"
  have all: "\<forall>j<3. retryable (flaky ?req j)"
    by (simp add: flaky_def retryable_def)
  have last: "lastRejection flaky ?req None 0 3 = Some (NetworkError ''reset'')"
    by code_simp
  have thrown: "fst (fetchWithRetry flaky ?req 3 1000) = Inl (NetworkError ''reset'')"
    using fetchWithRetry_policy[where fetch = flaky and req = ?req and maxRetries = 3
        and initialDelay = 1000] all last by simp
  have pre: "\<forall>j<1. retryable (recovering ?req j)"
    by (simp add: recovering_def retryable_def)
  have final: "recovering ?req 1 = Resolved (Response 404 None (Some ()))"
    "\<not> retryable (Resolved (Response 404 None (Some ())))"
    by (simp_all add: recovering_def retryable_def)
  have returned: "fst (fetchWithRetry recovering ?req 3 1000) = Inr (Response 404 None (Some ()))"
    using fetchWithRetry_policy[where fetch = recovering and req = ?req and maxRetries = 3
        and initialDelay = 1000 and k = 1 and r = "Response 404 None (Some ())"] pre final
    by simp
  have "snd (fetchWithRetry flaky ?req 3 1000) =
      [Fetch ?req 0, Sleep (Some 2000), Fetch ?req 1, Sleep (Some 2000),
       Fetch ?req 2, Sleep (Some 4000)]"
    by code_simp
  moreover have "snd (fetchWithRetry recovering ?req 3 1000) =
      [Fetch ?req 0, Sleep (Some 1000), Fetch ?req 1]"
    by code_simp
  ultimately show ?thesis
    using thrown returned by (simp add: prod_eq_iff)
qed

section \<open>Freshness policy\<close>

lemma yearSearch_bounds:
  "DayFromYear (yearSearch d y) \<le> d \<and> d < DayFromYear (yearSearch d y + 1)"
proof (induction d y rule: yearSearch.induct)
  case (1 d y)
  show ?case
  proof (cases "DayFromYear (y + 1) \<le> d")
    case True
    with 1(1) show ?thesis by (subst (1 2) yearSearch.simps) simp
  next
    case up: False
    show ?thesis
    proof (cases "d < DayFromYear y")
      case True
      with up 1(2) show ?thesis by (subst (1 2) yearSearch.simps) simp
    next
      case False
      with up show ?thesis by (subst (1 2) yearSearch.simps) simp
    qed
  qed
qed

lemma DayFromYear_mono: "y \<le> y' \<Longrightarrow> DayFromYear y \<le> DayFromYear y'"
proof (induction y' rule: int_ge_induct)
  case base
  show ?case by simp
next
  case (step i)
  with DayFromYear_less[of i] show ?case by simp
qed

lemma yearSearch_unique:
  assumes "DayFromYear y \<le> d" and "d < DayFromYear (y + 1)"
  shows "yearSearch d y0 = y"
proof -
  let ?z = "yearSearch d y0"
  have b: "DayFromYear ?z \<le> d" "d < DayFromYear (?z + 1)"
    using yearSearch_bounds[of d y0] by simp_all
  have "\<not> ?z < y"
  proof
    assume "?z < y"
    then have "DayFromYear (?z + 1) \<le> DayFromYear y" by (intro DayFromYear_mono) simp
    with assms(1) b(2) show False by simp
  qed
  moreover have "\<not> y < ?z"
  proof
    assume "y < ?z"
    then have "DayFromYear (y + 1) \<le> DayFromYear ?z" by (intro DayFromYear_mono) simp
    with assms(2) b(1) show False by simp
  qed
  ultimately show ?thesis by simp
qed

lemma YearFromTime_bounds:
  "DayFromYear (YearFromTime t) \<le> Day t" "Day t < DayFromYear (YearFromTime t + 1)"
  using yearSearch_bounds[of "Day t"] by (simp_all add: YearFromTime_def)

lemma YearFromTime_eqI:
  "DayFromYear y \<le> Day t \<Longrightarrow> Day t < DayFromYear (y + 1) \<Longrightarrow> YearFromTime t = y"
  by (simp add: YearFromTime_def yearSearch_unique)

lemma DayWithinYear_range: "0 \<le> DayWithinYear t" "DayWithinYear t < DaysInYear (YearFromTime t)"
  using YearFromTime_bounds[of t] DayFromYear_step[of "YearFromTime t"]
  by (simp_all add: DayWithinYear_def)

lemma DateFromTime_dateOf: "DateFromTime t = dateOf (DayWithinYear t) (InLeapYear t)"
  by (simp add: DateFromTime_def dateOf_def MonthFromTime_def monthOf_def Let_def)

lemma dateOf_next:
  assumes "0 \<le> k" "k + 1 < 365 + leap" "leap = 0 \<or> leap = 1"
  shows "dateOf (k + 1) leap \<noteq> dateOf k leap"
  using assms unfolding dateOf_def monthOf_def Let_def
  by (auto split: if_splits)

lemma dateOf_last: "leap = 0 \<or> leap = 1 \<Longrightarrow> dateOf (364 + leap) leap = 31"
  unfolding dateOf_def monthOf_def Let_def by auto

lemma dateOf_first: "leap = 0 \<or> leap = 1 \<Longrightarrow> dateOf 0 leap = 1"
  unfolding dateOf_def monthOf_def Let_def by auto

lemma InLeapYear_cases: "InLeapYear t = 0 \<or> InLeapYear t = 1"
  by (simp add: InLeapYear_def)

lemma DaysInYear_leap: "DaysInYear (YearFromTime t) = 365 + InLeapYear t"
  by (simp add: InLeapYear_def DaysInYear_def)

lemma same_day_same_date: "Day t = Day t' \<Longrightarrow> calendarDate t = calendarDate t'"
  by (simp add: calendarDate_def YearFromTime_def MonthFromTime_def DateFromTime_def
      DayWithinYear_def InLeapYear_def)

lemma next_day_other_date:
  assumes "Day t' = Day t + 1"
  shows "DateFromTime t' \<noteq> DateFromTime t"
proof -
  let ?y = "YearFromTime t" and ?k = "DayWithinYear t" and ?l = "InLeapYear t"
  have k: "0 \<le> ?k" "?k < 365 + ?l"
    using DayWithinYear_range[of t] by (simp_all add: DaysInYear_leap)
  have b: "DayFromYear ?y \<le> Day t" "Day t < DayFromYear (?y + 1)"
    by (rule YearFromTime_bounds)+
  have step: "DayFromYear (?y + 1) = DayFromYear ?y + (365 + ?l)"
    by (simp add: DayFromYear_step DaysInYear_leap)
  show ?thesis
  proof (cases "?k + 1 < 365 + ?l")
    case True
    have y': "YearFromTime t' = ?y"
      using True b step assms by (intro YearFromTime_eqI) (simp_all add: DayWithinYear_def)
    then have "DayWithinYear t' = ?k + 1" "InLeapYear t' = ?l"
      using assms by (simp_all add: DayWithinYear_def InLeapYear_def)
    then show ?thesis
      using dateOf_next[OF k(1) True InLeapYear_cases] by (simp add: DateFromTime_dateOf)
  next
    case False
    with k have last: "?k = 364 + ?l" by simp
    then have d: "Day t' = DayFromYear (?y + 1)"
      using assms step by (simp add: DayWithinYear_def)
    have y': "YearFromTime t' = ?y + 1"
      using d DayFromYear_less[of "?y + 1"] by (intro YearFromTime_eqI) simp_all
    then have "DayWithinYear t' = 0"
      using d by (simp add: DayWithinYear_def)
    then have "DateFromTime t' = 1"
      using dateOf_first[OF InLeapYear_cases[of t']] by (simp add: DateFromTime_dateOf)
    moreover have "DateFromTime t = 31"
      using dateOf_last[OF InLeapYear_cases[of t]] last by (simp add: DateFromTime_dateOf)
    ultimately show ?thesis by simp
  qed
qed

lemma div_window:
  fixes a b c :: int
  assumes "0 < c" "a \<le> b" "b \<le> a + c"
  shows "b div c = a div c \<or> b div c = a div c + 1"
proof -
  have "a div c \<le> b div c" using assms by (simp add: zdiv_mono1)
  moreover have "b div c \<le> (a + c) div c" using assms by (simp add: zdiv_mono1)
  moreover have "(a + c) div c = a div c + 1" by (rule div_add_self2) (use assms in simp)
  ultimately show ?thesis by linarith
qed

lemma within_a_day:
  assumes "lastUpdate \<le> now" "\<not> now - lastUpdate > 24 * 60 * 60 * 1000"
  shows "getUTCDate (now + 9 * 60 * 60 * 1000) \<noteq> getUTCDate (lastUpdate + 9 * 60 * 60 * 1000)
     \<longleftrightarrow> calendarDate (now + 9 * 60 * 60 * 1000) \<noteq> calendarDate (lastUpdate + 9 * 60 * 60 * 1000)"
proof -
  let ?n = "now + 9 * 60 * 60 * 1000" and ?l = "lastUpdate + 9 * 60 * 60 * 1000"
  have "Day ?n = Day ?l \<or> Day ?n = Day ?l + 1"
    unfolding Day_def msPerDay_def using assms by (intro div_window) simp_all
  then show ?thesis
  proof
    assume "Day ?n = Day ?l"
    then have "calendarDate ?n = calendarDate ?l" by (rule same_day_same_date)
    then show ?thesis by (simp add: calendarDate_def getUTCDate_def)
  next
    assume "Day ?n = Day ?l + 1"
    then have "DateFromTime ?n \<noteq> DateFromTime ?l" by (rule next_day_other_date)
    then show ?thesis by (auto simp: calendarDate_def getUTCDate_def)
  qed
qed

text \<open>
  Claim C2. The stamp of a stored snapshot is the clock reading taken just before the
  snapshot was stored, so the request that reads it has \<open>lastUpdate \<le> now\<close>. For every such
  \<open>lastUpdate\<close> and \<open>now\<close> and every refresh hour, \<open>shouldUpdateCache\<close> is true exactly when
  more than 24 hours have passed, or the calendar date of \<open>now\<close> in UTC+9 differs from that
  of \<open>lastUpdate\<close> and the hour of \<open>now\<close> in UTC+9 has reached the refresh hour. For every
  day \<open>d\<close>: with \<open>lastUpdate\<close> at 23:00 JST of day \<open>d\<close> and the refresh hour 8, the snapshot
  is stale at 09:00 JST of day \<open>d + 1\<close> and fresh at 07:00 JST of day \<open>d + 1\<close>.
\<close>

theorem shouldUpdateCache_rule:
  "(lastUpdate \<le> now \<longrightarrow>
      (shouldUpdateCache now lastUpdate refreshHour \<longleftrightarrow>
         now - lastUpdate > 24 * msPerHour \<or>
         (calendarDate (now + 9 * msPerHour) \<noteq> calendarDate (lastUpdate + 9 * msPerHour) \<and>
          HourFromTime (now + 9 * msPerHour) \<ge> refreshHour))) \<and>
   shouldUpdateCache (msPerDay * (d + 1) + 9 * msPerHour - 9 * msPerHour)
                     (msPerDay * d + 23 * msPerHour - 9 * msPerHour) 8 \<and>
   \<not> shouldUpdateCache (msPerDay * (d + 1) + 7 * msPerHour - 9 * msPerHour)
                       (msPerDay * d + 23 * msPerHour - 9 * msPerHour) 8"
proof -
  have rule: "shouldUpdateCache n l h \<longleftrightarrow>
         n - l > 24 * msPerHour \<or>
         (calendarDate (n + 9 * msPerHour) \<noteq> calendarDate (l + 9 * msPerHour) \<and>
          HourFromTime (n + 9 * msPerHour) \<ge> h)" if "l \<le> n" for n l h
  proof (cases "n - l > 24 * 60 * 60 * 1000")
    case True
    then show ?thesis by (simp add: shouldUpdateCache_def msPerHour_def Let_def)
  next
    case False
    from within_a_day[OF that False] False show ?thesis
      by (simp add: shouldUpdateCache_def msPerHour_def getUTCHours_def Let_def)
  qed
  let ?lu = "msPerDay * d + 23 * msPerHour - 9 * msPerHour"
  let ?nine = "msPerDay * (d + 1) + 9 * msPerHour - 9 * msPerHour"
  let ?seven = "msPerDay * (d + 1) + 7 * msPerHour - 9 * msPerHour"
  have day_lu: "Day (?lu + 9 * msPerHour) = d"
    unfolding Day_def msPerDay_def msPerHour_def
    by (rule int_div_pos_eq[where r = "82800000"]) simp_all
  have day_nine: "Day (?nine + 9 * msPerHour) = d + 1"
    unfolding Day_def msPerDay_def msPerHour_def
    by (rule int_div_pos_eq[where r = "32400000"]) simp_all
  have "DateFromTime (?nine + 9 * msPerHour) \<noteq> DateFromTime (?lu + 9 * msPerHour)"
    by (rule next_day_other_date) (simp only: day_lu day_nine)
  then have dates: "calendarDate (?nine + 9 * msPerHour) \<noteq> calendarDate (?lu + 9 * msPerHour)"
    by (simp add: calendarDate_def)
  have "msPerDay * (d + 1) + 9 * msPerHour = msPerHour * (24 * (d + 1)) + 9 * msPerHour"
    by (simp add: msPerDay_def msPerHour_def)
  then have hour_nine: "HourFromTime (?nine + 9 * msPerHour) = 9"
    by (simp add: HourFromTime_def msPerHour_def)
  have "msPerDay * (d + 1) + 7 * msPerHour = msPerHour * (24 * (d + 1)) + 7 * msPerHour"
    by (simp add: msPerDay_def msPerHour_def)
  then have hour_seven: "HourFromTime (?seven + 9 * msPerHour) = 7"
    by (simp add: HourFromTime_def msPerHour_def)
  have "shouldUpdateCache ?nine ?lu 8"
    using rule[of ?lu ?nine 8] dates hour_nine by (simp add: msPerDay_def msPerHour_def)
  moreover have "\<not> shouldUpdateCache ?seven ?lu 8"
    using rule[of ?lu ?seven 8] hour_seven by (simp add: msPerDay_def msPerHour_def)
  ultimately show ?thesis using rule by blast
qed

text \<open>
  At the day 19736 (2024-01-14): \<open>lastUpdate\<close> is 23:00 JST, \<open>now\<close> is 09:00 JST of the
  next day.
\<close>

theorem shouldUpdateCache_rule_witness:
  "(1705240800000 :: int) \<le> 1705276800000 \<and>
   calendarDate (1705276800000 + 9 * msPerHour) = (2024, 0, 15) \<and>
   calendarDate (1705240800000 + 9 * msPerHour) = (2024, 0, 14) \<and>
   HourFromTime (1705276800000 + 9 * msPerHour) = 9 \<and>
   shouldUpdateCache 1705276800000 1705240800000 8"
proof -
  have a: "(1705240800000 :: int) \<le> 1705276800000" by simp
  have b: "calendarDate (1705276800000 + 9 * msPerHour) = (2024, 0, 15)"
    "calendarDate (1705240800000 + 9 * msPerHour) = (2024, 0, 14)"
    "HourFromTime (1705276800000 + 9 * msPerHour) = 9"
    by code_simp+
  have "shouldUpdateCache 1705276800000 1705240800000 8"
    using shouldUpdateCache_rule[where lastUpdate = 1705240800000 and now = 1705276800000
        and refreshHour = 8] a b by simp
  with a b show ?thesis by simp
qed

text \<open>
  The code compares the day of the month, which tells two dates apart as long as the
  stamp is not ahead of the clock. A stamp 31 days ahead, such as no request reads from the
  store, has the date of another month and the same day of the month: \<open>now\<close> is 12:00 JST of
  2024-01-15, the stamp is 12:00 JST of 2024-02-15.
\<close>

lemma shouldUpdateCache_stamp_ahead:
  "\<not> shouldUpdateCache 1705287600000 1707966000000 8 \<and>
   calendarDate (1705287600000 + 9 * msPerHour) = (2024, 0, 15) \<and>
   calendarDate (1707966000000 + 9 * msPerHour) = (2024, 1, 15) \<and>
   HourFromTime (1705287600000 + 9 * msPerHour) = 12"
  by code_simp

section \<open>Aggregation engine\<close>

text \<open>Commit queries in a trace, and the results of the batch tasks.\<close>

lemma commitQueries_append [simp]: "commitQueries (a @ b) = commitQueries a @ commitQueries b"
  by (simp add: commitQueries_def)

lemma commitQueries_Nil [simp]: "commitQueries [] = []"
  by (simp add: commitQueries_def)

lemma commitQueries_Sleep [simp]: "commitQueries (Sleep w # tr) = commitQueries tr"
  by (simp add: commitQueries_def)

lemma commitQueries_after [simp]:
  "commitQueries (snd (after es run)) = commitQueries es @ commitQueries (snd run)"
  by (simp add: after_def)

lemma fst_after [simp]: "fst (after es run) = fst run"
  by (simp add: after_def)

lemma later_attempt_no_query: "0 < i \<Longrightarrow> \<not> isCommitQuery (Fetch req i)"
  by (cases req, cases "fst req") auto

lemma commitQueries_Fetch_later [simp]:
  "0 < i \<Longrightarrow> commitQueries (Fetch req i # tr) = commitQueries tr"
  by (simp add: commitQueries_def later_attempt_no_query)

lemma fetchLoop_trace_step:
  "snd (fetchLoop fetch req m d i le) = [] \<or>
   snd (fetchLoop fetch req m d i le) = [Fetch req i] \<or>
   (\<exists>w le'. snd (fetchLoop fetch req m d i le) =
       Fetch req i # Sleep w # snd (fetchLoop fetch req m d (i + 1) le'))"
  by (subst (1 2 3) fetchLoop.simps)
     (auto simp: after_def split: fetch_outcome.splits)

lemma fetchLoop_later_no_query:
  "0 < i \<Longrightarrow> commitQueries (snd (fetchLoop fetch req m d i le)) = []"
proof (induction "m - i" arbitrary: i le)
  case 0
  then have "\<not> i < m" by simp
  then show ?case by (subst fetchLoop.simps) simp
next
  case (Suc n)
  have IH: "commitQueries (snd (fetchLoop fetch req m d (i + 1) le')) = []" for le'
  proof (cases "i + 1 < m")
    case True
    with Suc show ?thesis by (intro Suc.hyps(1)) auto
  next
    case False
    then show ?thesis by (subst fetchLoop.simps) simp
  qed
  from fetchLoop_trace_step[of fetch req m d i le] show ?case
    using Suc.prems IH by auto
qed

lemma fetchWithRetry_queries:
  "length (commitQueries (snd (fetchWithRetry fetch req m d))) \<le> 1"
  unfolding fetchWithRetry_def
  using fetchLoop_trace_step[of fetch req m d 0 None]
  by (auto simp: commitQueries_def fetchLoop_later_no_query[unfolded commitQueries_def])

lemma fetchLoop_trace_first:
  "i < m \<Longrightarrow>
   snd (fetchLoop fetch req m d i le) = [Fetch req i] \<or>
   (\<exists>w le'. snd (fetchLoop fetch req m d i le) =
       Fetch req i # Sleep w # snd (fetchLoop fetch req m d (i + 1) le'))"
  by (subst (1 2) fetchLoop.simps)
     (auto simp: after_def split: fetch_outcome.splits)

lemma fetchWithRetry_one_query:
  "0 < m \<Longrightarrow>
   commitQueries (snd (fetchWithRetry fetch (ReposCommitsUrl a b c e, hs) m d)) =
     [Fetch (ReposCommitsUrl a b c e, hs) 0]"
  unfolding fetchWithRetry_def
  using fetchLoop_trace_first[of 0 m fetch "(ReposCommitsUrl a b c e, hs)" d None]
  by (auto simp: commitQueries_def fetchLoop_later_no_query[unfolded commitQueries_def])

lemma other_url_no_query:
  "(\<And>a b c e. fst req \<noteq> ReposCommitsUrl a b c e) \<Longrightarrow> \<not> isCommitQuery (Fetch req i)"
  by (cases req, cases "fst req") auto

lemma fetchWithRetry_other_url:
  assumes "\<And>a b c e. fst req \<noteq> ReposCommitsUrl a b c e"
  shows "commitQueries (snd (fetchWithRetry fetch req m d)) = []"
  unfolding fetchWithRetry_def
  using fetchLoop_trace_step[of fetch req m d 0 None] other_url_no_query[OF assms, of 0]
  by (auto simp: commitQueries_def fetchLoop_later_no_query[unfolded commitQueries_def])

lemma getRepoCommits_trace:
  "snd (getRepoCommits p u ow rn since token) =
     snd (fetchWithRetry (repoCommits p)
            (ReposCommitsUrl ow rn u since, getGithubHeaders token) 3 500)"
  by (simp add: getRepoCommits_def getRepoCommits_try_def
      split: prod.splits sum.splits option.splits)

lemma getRepoCommits_queries:
  "length (commitQueries (snd (getRepoCommits p u ow rn since token))) \<le> 1"
  unfolding getRepoCommits_trace by (rule fetchWithRetry_queries)

lemma getRepoCommits_one_query:
  "length (commitQueries (snd (getRepoCommits p u ow rn since token))) = 1"
  unfolding getRepoCommits_trace by (simp add: fetchWithRetry_one_query)

lemma getRepoCommits_value:
  "\<exists>count\<ge>0. fst (getRepoCommits p u ow rn since token) = Inr count"
  by (simp add: getRepoCommits_def getRepoCommits_try_def
      split: prod.splits sum.splits option.splits)

lemma awaitAll_Cons [simp]:
  "fst (awaitAll task (x # xs)) = fst (task x) # fst (awaitAll task xs)"
  "snd (awaitAll task (x # xs)) = snd (task x) @ snd (awaitAll task xs)"
  by (simp_all add: awaitAll.simps(2) split: prod.splits)

lemma awaitAll_length [simp]: "length (fst (awaitAll task xs)) = length xs"
  by (induction xs) simp_all

lemma awaitAll_queries:
  "(\<And>x. length (commitQueries (snd (task x))) \<le> 1) \<Longrightarrow>
   length (commitQueries (snd (awaitAll task xs))) \<le> length xs"
proof (induction xs)
  case Nil
  show ?case by simp
next
  case (Cons x xs)
  from Cons.prems[of x] Cons.IH[OF Cons.prems] show ?case by simp
qed

lemma awaitAll_no_queries:
  "(\<And>x. commitQueries (snd (task x)) = []) \<Longrightarrow> commitQueries (snd (awaitAll task xs)) = []"
  by (induction xs) simp_all

lemma awaitAll_results:
  "(\<And>x. P (fst (task x))) \<Longrightarrow> \<forall>r \<in> set (fst (awaitAll task xs)). P r"
  by (induction xs) simp_all

lemma ownedBatchTask_positive: "positive (fst (ownedBatchTask p u config since repo))"
  by (auto simp: ownedBatchTask_def positive_def split: prod.splits sum.splits)

lemma orgBatchTask_positive: "positive (fst (orgBatchTask p u config since entry))"
  by (auto simp: orgBatchTask_def positive_def split: prod.splits sum.splits)

lemma ownedBatchTask_queries:
  "length (commitQueries (snd (ownedBatchTask p u config since repo))) \<le> 1"
  using getRepoCommits_queries[of p u u "name repo" since "githubToken config"]
  by (auto simp: ownedBatchTask_def split: prod.splits sum.splits)

lemma orgBatchTask_queries:
  "length (commitQueries (snd (orgBatchTask p u config since entry))) \<le> 1"
  using getRepoCommits_queries[of p u "fst entry" "name (snd entry)" since "githubToken config"]
  by (auto simp: orgBatchTask_def split: prod.splits sum.splits)

lemma orgReposTask_no_queries: "commitQueries (snd (orgReposTask p config org')) = []"
  using fetchWithRetry_other_url[of "(OrgsReposUrl (login org') (maxReposPerOrg config),
              getGithubHeaders (githubToken config))" "orgRepos p" 3 1000]
  by (auto simp: orgReposTask_def split: prod.splits sum.splits option.splits)

lemma batchPause_no_query [simp]: "commitQueries (batchPause config # tr) = commitQueries tr"
  by (simp add: batchPause_def)

lemma batchSizeOf_pos: "0 < batchSizeOf config"
  by (simp add: batchSizeOf_def)

lemma length_slice: "length (slice xs i j) = min (j - i) (length xs - i)"
  by (simp add: slice_def)

lemma slice_min [simp]: "slice xs i (min j (length xs)) = slice xs i j"
  by (cases "j \<le> length xs") (simp_all add: slice_def min_def)

lemma batch_fits: "length (slice rs i (i + b)) + (length rs - (i + b)) \<le> length rs - i"
  unfolding length_slice by arith

text \<open>The owned pass.\<close>

lemma ownedBatches_queries:
  "length (commitQueries (snd (ownedBatches p u config since rs i tally))) \<le> length rs - i"
proof (induction p u config since rs i tally rule: ownedBatches.induct)
  case (1 p u config since rs i tally)
  show ?case
  proof (cases "i < length rs")
    case False
    then show ?thesis by (subst ownedBatches.simps) simp
  next
    case True
    let ?batch = "slice rs i (i + batchSizeOf config)"
    let ?results = "awaitAll (ownedBatchTask p u config since) ?batch"
    let ?tally = "ownedTally tally (fst ?results)"
    have a: "length (commitQueries (snd ?results)) \<le> length ?batch"
      by (rule awaitAll_queries) (rule ownedBatchTask_queries)
    have b: "length (commitQueries (snd (ownedBatches p u config since rs
                (i + batchSizeOf config) ?tally))) \<le> length rs - (i + batchSizeOf config)"
      using 1[OF True refl refl refl refl] by simp
    have c: "length ?batch \<le> batchSizeOf config" "length ?batch \<le> length rs - i"
      by (simp_all add: length_slice)
    have "length ?batch + (length rs - (i + batchSizeOf config)) \<le> length rs - i"
      by (rule batch_fits)
    with a b True show ?thesis
      by (subst ownedBatches.simps) (simp add: Let_def)
  qed
qed

lemma grows_refl: "grows t t 0"
  by (simp add: grows_def)

lemma grows_trans: "grows t t' n \<Longrightarrow> grows t' t'' m \<Longrightarrow> grows t t'' (n + m)"
  by (auto simp: grows_def)

lemma grows_mono: "grows t t' n \<Longrightarrow> n \<le> m \<Longrightarrow> grows t t' m"
  by (auto simp: grows_def)

lemma ownedTally_grows:
  "\<forall>r \<in> set results. positive r \<Longrightarrow> grows tally (ownedTally tally results) (length results)"
proof (induction results arbitrary: tally)
  case Nil
  show ?case by (simp add: ownedTally_def grows_refl)
next
  case (Cons r rs)
  let ?t = "ownedTally tally [r]"
  have one: "grows tally ?t 1"
    using Cons.prems by (cases r) (auto simp: ownedTally_def grows_def positive_def)
  have rest: "grows ?t (ownedTally ?t rs) (length rs)"
    using Cons.prems by (intro Cons.IH) simp
  have "ownedTally tally (r # rs) = ownedTally ?t rs"
    by (simp add: ownedTally_def)
  with grows_trans[OF one rest] show ?case by simp
qed

lemma ownedBatches_grows:
  "grows tally (fst (ownedBatches p u config since rs i tally)) (length rs - i)"
proof (induction p u config since rs i tally rule: ownedBatches.induct)
  case (1 p u config since rs i tally)
  show ?case
  proof (cases "i < length rs")
    case False
    then show ?thesis by (subst ownedBatches.simps) (simp add: grows_refl)
  next
    case True
    let ?batch = "slice rs i (i + batchSizeOf config)"
    let ?results = "awaitAll (ownedBatchTask p u config since) ?batch"
    let ?tally = "ownedTally tally (fst ?results)"
    have "\<forall>r \<in> set (fst ?results). positive r"
      by (rule awaitAll_results) (rule ownedBatchTask_positive)
    then have a: "grows tally ?tally (length ?batch)"
      using ownedTally_grows[of "fst ?results" tally] by simp
    have b: "grows ?tally (fst (ownedBatches p u config since rs (i + batchSizeOf config) ?tally))
               (length rs - (i + batchSizeOf config))"
      using 1[OF True refl refl refl refl] by simp
    have "length ?batch + (length rs - (i + batchSizeOf config)) \<le> length rs - i"
      by (rule batch_fits)
    with grows_trans[OF a b]
    have "grows tally (fst (ownedBatches p u config since rs (i + batchSizeOf config) ?tally))
            (length rs - i)"
      by (rule grows_mono)
    with True show ?thesis
      by (subst ownedBatches.simps) (simp add: Let_def)
  qed
qed

lemma reposToProcessOf_length: "length (reposToProcessOf config since tally repos) \<le> 20"
  by (simp add: reposToProcessOf_def slice_def)

text \<open>The organisation pass.\<close>

lemma pushOrgRepos_length:
  "int (length (pushOrgRepos config since maxRepos orgName repos acc))
     \<le> max (int (length acc)) maxRepos"
  by (induction config since maxRepos orgName repos acc rule: pushOrgRepos.induct) auto

lemma flattenOrgRepos_length:
  "int (length acc) \<le> max 0 maxRepos \<Longrightarrow>
   flattenOrgRepos config since maxRepos results acc = Inr allOrgRepos \<Longrightarrow>
   int (length allOrgRepos) \<le> max 0 maxRepos"
proof (induction config since maxRepos results acc rule: flattenOrgRepos.induct)
  case (4 config since maxRepos orgName repos results acc)
  have "int (length (pushOrgRepos config since maxRepos orgName repos acc)) \<le> max 0 maxRepos"
    using pushOrgRepos_length[of config since maxRepos orgName repos acc] "4.prems"(1) by simp
  with 4 show ?case by simp
qed simp_all

lemma orgGrows_refl: "orgGrows maxRepos t t"
  by (simp add: orgGrows_def)

lemma orgGrows_trans: "orgGrows m t t' \<Longrightarrow> orgGrows m t' t'' \<Longrightarrow> orgGrows m t t''"
  by (auto simp: orgGrows_def)

lemma orgTally_grows:
  "\<forall>r \<in> set results. positive r \<Longrightarrow> orgGrows maxRepos totals (orgTally maxRepos totals results)"
proof (induction results arbitrary: totals)
  case Nil
  show ?case by (simp add: orgTally_def orgGrows_refl)
next
  case (Cons r rs)
  let ?t = "orgTally maxRepos totals [r]"
  have one: "orgGrows maxRepos totals ?t"
    using Cons.prems
    by (cases r; cases totals) (auto simp: orgTally_def orgGrows_def positive_def)
  have rest: "orgGrows maxRepos ?t (orgTally maxRepos ?t rs)"
    using Cons.prems by (intro Cons.IH) simp
  have "orgTally maxRepos totals (r # rs) = orgTally maxRepos ?t rs"
    by (simp add: orgTally_def)
  with orgGrows_trans[OF one rest] show ?case by simp
qed

lemma orgBatches_grows:
  "orgGrows maxRepos totals (fst (orgBatches p u config since maxRepos rs i totals))"
proof (induction p u config since maxRepos rs i totals rule: orgBatches.induct)
  case (1 p u config since maxRepos rs i totals)
  show ?case
  proof (cases "i < length rs \<and> snd totals < maxRepos")
    case False
    then show ?thesis by (subst orgBatches.simps) (auto simp: orgGrows_refl)
  next
    case True
    let ?batch = "slice rs i (i + batchSizeOf config)"
    let ?results = "awaitAll (orgBatchTask p u config since) ?batch"
    let ?totals = "orgTally maxRepos totals (fst ?results)"
    have "\<forall>r \<in> set (fst ?results). positive r"
      by (rule awaitAll_results) (rule orgBatchTask_positive)
    then have a: "orgGrows maxRepos totals ?totals"
      by (rule orgTally_grows)
    have b: "orgGrows maxRepos ?totals
               (fst (orgBatches p u config since maxRepos rs (i + batchSizeOf config) ?totals))"
      using 1[OF True refl refl refl refl] by simp
    from orgGrows_trans[OF a b] True show ?thesis
      by (subst orgBatches.simps) (simp add: Let_def)
  qed
qed

lemma orgBatches_queries:
  "length (commitQueries (snd (orgBatches p u config since maxRepos rs i totals))) \<le> length rs - i"
proof (induction p u config since maxRepos rs i totals rule: orgBatches.induct)
  case (1 p u config since maxRepos rs i totals)
  show ?case
  proof (cases "i < length rs \<and> snd totals < maxRepos")
    case False
    then show ?thesis by (subst orgBatches.simps) auto
  next
    case True
    let ?batch = "slice rs i (i + batchSizeOf config)"
    let ?results = "awaitAll (orgBatchTask p u config since) ?batch"
    let ?totals = "orgTally maxRepos totals (fst ?results)"
    have a: "length (commitQueries (snd ?results)) \<le> length ?batch"
      by (rule awaitAll_queries) (rule orgBatchTask_queries)
    have b: "length (commitQueries (snd (orgBatches p u config since maxRepos rs
                (i + batchSizeOf config) ?totals))) \<le> length rs - (i + batchSizeOf config)"
      using 1[OF True refl refl refl refl] by simp
    have "length ?batch + (length rs - (i + batchSizeOf config)) \<le> length rs - i"
      by (rule batch_fits)
    with a b True show ?thesis
      by (subst orgBatches.simps) (simp add: Let_def)
  qed
qed

lemma getOrgRepoCommits_queries:
  "int (length (commitQueries (snd (getOrgRepoCommits p u config since maxRepos)))) \<le> max 0 maxRepos"
proof -
  have orgs: "commitQueries (snd (fetchWithRetry (userOrgs p)
             (UsersOrgsUrl u, getGithubHeaders (githubToken config)) 3 1000)) = []"
    by (rule fetchWithRetry_other_url) simp
  have tasks: "commitQueries (snd (awaitAll (orgReposTask p config) os)) = []" for os
    by (rule awaitAll_no_queries) (rule orgReposTask_no_queries)
  have batches: "int (length (commitQueries (snd (orgBatches p u config since maxRepos
        allOrgRepos 0 (0, 0))))) \<le> max 0 maxRepos"
    if "flattenOrgRepos config since maxRepos rs [] = Inr allOrgRepos" for rs allOrgRepos
    using orgBatches_queries[of p u config since maxRepos allOrgRepos 0 "(0, 0)"]
      flattenOrgRepos_length[OF _ that] by simp
  show ?thesis
    using orgs batches
    by (auto simp: getOrgRepoCommits_def Let_def tasks split: prod.splits sum.splits option.splits)
qed

lemma getOrgRepoCommits_result:
  "orgGrows maxRepos (0, 0) (fst (getOrgRepoCommits p u config since maxRepos))"
  using orgBatches_grows[of maxRepos "(0, 0)" p u config since]
  by (auto simp: getOrgRepoCommits_def Let_def orgGrows_refl
      split: prod.splits sum.splits option.splits)

text \<open>
  Two organisations whose listings parse to a value that cannot be walked: both are
  fetched, the flattening loop throws, and the pass ends with no commit query.
\<close>

lemma getOrgRepoCommits_not_iterable:
  "getOrgRepoCommits
     (always (Resolved (Response 200 None (Some (reposNamed 2 0))))
        (Resolved (Response 200 None (Some [\<lparr>login = ''acme''\<rparr>, \<lparr>login = ''labs''\<rparr>])))
        (Resolved (Response 200 None (Some NotIterable)))
        (Resolved (Response 200 None (Some [commitBy ''alice'']))))
     ''alice'' exampleConfig 0 20
   = ((0, 0),
      [Fetch (UsersOrgsUrl ''alice'', getGithubHeaders None) 0,
       Fetch (OrgsReposUrl ''acme'' 5, getGithubHeaders None) 0,
       Fetch (OrgsReposUrl ''labs'' 5, getGithubHeaders None) 0])"
  by code_simp

text \<open>The two passes inside \<open>getCommitCount\<close>.\<close>

lemma ownedPass_grows:
  "grows tally0 (fst (ownedBatches p u config since (reposToProcessOf config since tally0 repos) 0 tally0)) 20"
  using ownedBatches_grows[of tally0 p u config since "reposToProcessOf config since tally0 repos" 0]
    reposToProcessOf_length[of config since tally0 repos]
  by (auto intro: grows_mono)

lemma ownedPass_queries:
  "length (commitQueries (snd (ownedBatches p u config since
      (reposToProcessOf config since tally repos) 0 tally))) \<le> 20"
  using ownedBatches_queries[of p u config since "reposToProcessOf config since tally repos" 0 tally]
    reposToProcessOf_length[of config since tally repos]
  by simp

lemma orgPass_queries:
  "int (length (commitQueries (snd (orgPass p u config since tally))))
     \<le> max 0 (20 - processedRepos tally)"
  using getOrgRepoCommits_queries[of p u config since "20 - processedRepos tally"]
  by (auto simp: orgPass_def Let_def)

lemma orgPass_result:
  assumes "grows tally0 t 20"
  shows "0 \<le> owned (repoSources (fst (orgPass p u config since t))) \<and>
         owned (repoSources (fst (orgPass p u config since t))) = owned (repoSources t) \<and>
         0 \<le> org (repoSources (fst (orgPass p u config since t))) \<and>
         owned (repoSources (fst (orgPass p u config since t))) +
           org (repoSources (fst (orgPass p u config since t))) \<le> 20 \<and>
         totalCommits (fst (orgPass p u config since t)) \<ge>
           owned (repoSources (fst (orgPass p u config since t))) +
           org (repoSources (fst (orgPass p u config since t)))"
proof -
  from assms have t: "0 \<le> owned (repoSources t)" "owned (repoSources t) \<le> 20"
    "processedRepos t = owned (repoSources t)" "totalCommits t \<ge> owned (repoSources t)"
    "org (repoSources t) = 0"
    by (simp_all add: grows_def tally0_def)
  show ?thesis
  proof (cases "includeOrgRepos config \<and> processedRepos t < 20")
    case False
    then have "orgPass p u config since t = (t, [])" by (auto simp: orgPass_def)
    with t show ?thesis by simp
  next
    case True
    let ?r = "fst (getOrgRepoCommits p u config since (20 - processedRepos t))"
    have "orgGrows (20 - processedRepos t) (0, 0) ?r" by (rule getOrgRepoCommits_result)
    then have "0 \<le> snd ?r" "snd ?r \<le> 20 - processedRepos t" "fst ?r \<ge> snd ?r"
      using True by (simp_all add: orgGrows_def)
    moreover have "orgPass p u config since t =
        (t\<lparr>totalCommits := totalCommits t + fst ?r,
           repoSources := (repoSources t)\<lparr>org := snd ?r\<rparr>,
           processedRepos := processedRepos t + snd ?r\<rparr>,
         snd (getOrgRepoCommits p u config since (20 - processedRepos t)))"
      using True by (simp add: orgPass_def Let_def)
    ultimately show ?thesis using t by simp
  qed
qed

lemma getCommitCount_cases:
  "(\<exists>e. fst (getCommitCount p now u days config) = Inl e \<and>
        commitQueries (snd (getCommitCount p now u days config)) = []) \<or>
   (\<exists>t tr. grows tally0 t 20 \<and> length (commitQueries tr) \<le> 20 \<and>
        fst (getCommitCount p now u days config) =
          Inr \<lparr>commits = totalCommits (fst (orgPass p u config (now - days * msPerDay) t)),
               sources = repoSources (fst (orgPass p u config (now - days * msPerDay) t))\<rparr> \<and>
        commitQueries (snd (getCommitCount p now u days config)) =
          commitQueries tr @ commitQueries (snd (orgPass p u config (now - days * msPerDay) t)))"
proof -
  let ?since = "now - days * msPerDay"
  let ?fw = "fetchWithRetry (userRepos p) (UsersReposUrl u, getGithubHeaders (githubToken config)) 3 1000"
  have noq: "commitQueries (snd ?fw) = []"
    by (rule fetchWithRetry_other_url) simp
  obtain res tr where fw: "?fw = (res, tr)" by (cases ?fw)
  with noq have tr: "commitQueries tr = []" by simp
  show ?thesis
  proof (cases res)
    case (Inl e)
    with fw tr show ?thesis
      by (simp add: getCommitCount_def Let_def tally0_def)
  next
    case (Inr ownedRepos)
    show ?thesis
    proof (cases "ok ownedRepos")
      case False
      have "grows tally0 tally0 20" using grows_refl[of tally0] by (rule grows_mono) simp
      with False Inr fw tr show ?thesis
        by (intro disjI2 exI[of _ tally0] exI[of _ "[]"])
           (simp add: getCommitCount_def Let_def tally0_def[symmetric])
    next
      case True
      show ?thesis
      proof (cases "json ownedRepos")
        case None
        with True Inr fw tr show ?thesis
          by (simp add: getCommitCount_def Let_def)
      next
        case (Some repos)
        let ?run = "ownedBatches p u config ?since (reposToProcessOf config ?since tally0 repos) 0 tally0"
        have "grows tally0 (fst ?run) 20" by (rule ownedPass_grows)
        moreover have "length (commitQueries (snd ?run)) \<le> 20" by (rule ownedPass_queries)
        ultimately show ?thesis
          using Some True Inr fw tr
          by (intro disjI2 exI[of _ "fst ?run"] exI[of _ "snd ?run"])
             (simp add: getCommitCount_def Let_def tally0_def[symmetric])
      qed
    qed
  qed
qed

text \<open>The runs of the two example providers, evaluated once.\<close>

lemma active_run:
  "(case getCommitCount active 1000 ''alice'' 14 exampleConfig of
      (outcome, tr) \<Rightarrow> (outcome, length (commitQueries tr)))
     = (Inr \<lparr>commits = 3, sources = \<lparr>owned = 2, org = 1\<rparr>\<rparr>, 3)"
  by code_simp

lemma active_result:
  "fst (getCommitCount active 1000 ''alice'' 14 exampleConfig)
     = Inr \<lparr>commits = 3, sources = \<lparr>owned = 2, org = 1\<rparr>\<rparr>"
  using active_run by (simp split: prod.splits)

lemma active_queries:
  "length (commitQueries (snd (getCommitCount active 1000 ''alice'' 14 exampleConfig))) = 3"
  using active_run by (simp split: prod.splits)

lemma alice_no_bot: "\<not> isBotAccount (Some ''alice'') None None"
  by code_simp

lemma dependabot_bot: "isBotAccount (Some ''dependabot'') None None"
  by code_simp

text \<open>
  Claim C10. Every result that \<open>getCommitCount\<close> returns has non-negative source
  counters, at most 20 contributing repositories in all, and at least one commit per
  contributing repository: \<open>owned + org \<le> 20\<close> and \<open>commits \<ge> owned + org\<close>. The reason is
  in the batch tasks of both passes: a task yields a count only when the count is at
  least one.
\<close>

theorem getCommitCount_result_invariant:
  "(fst (getCommitCount p now u days config) = Inr result \<longrightarrow>
      0 \<le> owned (sources result) \<and> 0 \<le> org (sources result) \<and>
      owned (sources result) + org (sources result) \<le> 20 \<and>
      commits result \<ge> owned (sources result) + org (sources result)) \<and>
   (fst (ownedBatchTask p u config since repo) = Some count \<longrightarrow> 1 \<le> count) \<and>
   (fst (orgBatchTask p u config since entry) = Some count \<longrightarrow> 1 \<le> count)"
proof (intro conjI impI)
  assume r: "fst (getCommitCount p now u days config) = Inr result"
  from getCommitCount_cases[of p now u days config] r
  obtain t where t: "grows tally0 t 20"
    and res: "result = \<lparr>commits = totalCommits (fst (orgPass p u config (now - days * msPerDay) t)),
               sources = repoSources (fst (orgPass p u config (now - days * msPerDay) t))\<rparr>"
    by auto
  from orgPass_result[OF t, of p u config "now - days * msPerDay"]
  show "0 \<le> owned (sources result)" "0 \<le> org (sources result)"
    "owned (sources result) + org (sources result) \<le> 20"
    "commits result \<ge> owned (sources result) + org (sources result)"
    unfolding res by simp_all
next
  assume "fst (ownedBatchTask p u config since repo) = Some count"
  with ownedBatchTask_positive[of p u config since repo] show "1 \<le> count"
    by (simp add: positive_def)
next
  assume "fst (orgBatchTask p u config since entry) = Some count"
  with orgBatchTask_positive[of p u config since entry] show "1 \<le> count"
    by (simp add: positive_def)
qed

text \<open>The run against \<open>active\<close>: three commits from two owned and one organisation repository.\<close>

theorem getCommitCount_result_invariant_witness:
  "fst (getCommitCount active 1000 ''alice'' 14 exampleConfig)
     = Inr \<lparr>commits = 3, sources = \<lparr>owned = 2, org = 1\<rparr>\<rparr> \<and>
   owned (sources \<lparr>commits = 3, sources = \<lparr>owned = 2, org = 1\<rparr>\<rparr>) +
     org (sources \<lparr>commits = 3, sources = \<lparr>owned = 2, org = 1\<rparr>\<rparr>) \<le> 20 \<and>
   commits \<lparr>commits = 3, sources = \<lparr>owned = 2, org = 1\<rparr>\<rparr> \<ge>
     owned (sources \<lparr>commits = 3, sources = \<lparr>owned = 2, org = 1\<rparr>\<rparr>) +
     org (sources \<lparr>commits = 3, sources = \<lparr>owned = 2, org = 1\<rparr>\<rparr>)"
proof -
  from getCommitCount_result_invariant[where p = active and now = 1000
        and u = "''alice''" and days = 14 and config = exampleConfig
        and result = "\<lparr>commits = 3, sources = \<lparr>owned = 2, org = 1\<rparr>\<rparr>"] active_result
  have "owned (sources \<lparr>commits = 3, sources = \<lparr>owned = 2, org = 1\<rparr>\<rparr>) +
     org (sources \<lparr>commits = 3, sources = \<lparr>owned = 2, org = 1\<rparr>\<rparr>) \<le> 20 \<and>
   commits \<lparr>commits = 3, sources = \<lparr>owned = 2, org = 1\<rparr>\<rparr> \<ge>
     owned (sources \<lparr>commits = 3, sources = \<lparr>owned = 2, org = 1\<rparr>\<rparr>) +
     org (sources \<lparr>commits = 3, sources = \<lparr>owned = 2, org = 1\<rparr>\<rparr>)"
    by simp
  with active_result show ?thesis by (intro conjI) simp_all
qed

text \<open>
  Claim C1, as the code has it. The ceiling of 20 is on the repositories that contribute,
  not on those queried. A run of \<open>getCommitCount\<close> calls \<open>getRepoCommits\<close> for at most 20
  repositories in the owned pass and for at most \<open>20 - sources.owned\<close> in the organisation
  pass (\<open>getOrgRepoCommits\<close> queries at most \<open>maxRepos\<close> repositories): at most
  \<open>40 - sources.owned\<close> in all, and never more than 40, whatever the lengths of the lists
  the provider returns. Calls are counted in the trace: each call of \<open>getRepoCommits\<close>
  leaves exactly one commit query there.
\<close>

theorem getCommitCount_query_bound:
  "length (commitQueries (snd (getCommitCount p now u days config))) \<le> 40 \<and>
   (fst (getCommitCount p now u days config) = Inr result \<longrightarrow>
      int (length (commitQueries (snd (getCommitCount p now u days config))))
        \<le> 20 + (20 - owned (sources result))) \<and>
   length (commitQueries (snd (ownedBatches p u config since
      (reposToProcessOf config since tally repos) 0 tally))) \<le> 20 \<and>
   int (length (commitQueries (snd (getOrgRepoCommits p u config since maxRepos)))) \<le> max 0 maxRepos \<and>
   length (commitQueries (snd (getRepoCommits p u repoOwner repoName since token))) = 1"
proof -
  let ?since = "now - days * msPerDay"
  let ?q = "commitQueries (snd (getCommitCount p now u days config))"
  have bound: "int (length ?q) \<le> 40 \<and>
      (\<forall>result. fst (getCommitCount p now u days config) = Inr result \<longrightarrow>
         int (length ?q) \<le> 20 + (20 - owned (sources result)))"
    using getCommitCount_cases[of p now u days config]
  proof (elim disjE exE conjE)
    fix e
    assume "fst (getCommitCount p now u days config) = Inl e" "?q = []"
    then show ?thesis by simp
  next
    fix t tr
    assume t: "grows tally0 t 20" and tr: "length (commitQueries tr) \<le> 20"
      and res: "fst (getCommitCount p now u days config) =
          Inr \<lparr>commits = totalCommits (fst (orgPass p u config ?since t)),
               sources = repoSources (fst (orgPass p u config ?since t))\<rparr>"
      and q: "?q = commitQueries tr @ commitQueries (snd (orgPass p u config ?since t))"
    from t have t': "0 \<le> owned (repoSources t)" "processedRepos t = owned (repoSources t)"
      by (simp_all add: grows_def tally0_def)
    have o: "int (length (commitQueries (snd (orgPass p u config ?since t))))
        \<le> max 0 (20 - processedRepos t)"
      by (rule orgPass_queries)
    have same: "owned (repoSources (fst (orgPass p u config ?since t))) = owned (repoSources t)"
      using orgPass_result[OF t, of p u config ?since] by simp
    have len: "int (length ?q) \<le> 20 + max 0 (20 - owned (repoSources t))"
      using tr o t' unfolding q by simp
    from t have "owned (repoSources t) \<le> 20" by (simp add: grows_def tally0_def)
    with len t' res same show ?thesis by auto
  qed
  then have "length ?q \<le> 40" by linarith
  with bound ownedPass_queries[of p u config since tally repos]
    getOrgRepoCommits_queries[of p u config since maxRepos]
    getRepoCommits_one_query[of p u repoOwner repoName since token]
  show ?thesis by blast
qed
text \<open>The run against \<open>active\<close> queries three repositories.\<close>

theorem getCommitCount_query_bound_witness:
  "fst (getCommitCount active 1000 ''alice'' 14 exampleConfig)
     = Inr \<lparr>commits = 3, sources = \<lparr>owned = 2, org = 1\<rparr>\<rparr> \<and>
   length (commitQueries (snd (getCommitCount active 1000 ''alice'' 14 exampleConfig))) = 3 \<and>
   int (length (commitQueries (snd (getCommitCount active 1000 ''alice'' 14 exampleConfig))))
     \<le> 20 + (20 - owned (sources \<lparr>commits = 3, sources = \<lparr>owned = 2, org = 1\<rparr>\<rparr>))"
proof -
  have "int (length (commitQueries (snd (getCommitCount active 1000 ''alice'' 14 exampleConfig))))
     \<le> 20 + (20 - owned (sources \<lparr>commits = 3, sources = \<lparr>owned = 2, org = 1\<rparr>\<rparr>))"
    using getCommitCount_query_bound[where p = active and now = 1000 and u = "''alice''"
        and days = 14 and config = exampleConfig
        and result = "\<lparr>commits = 3, sources = \<lparr>owned = 2, org = 1\<rparr>\<rparr>"] active_result
    by simp
  with active_result active_queries show ?thesis by simp
qed

text \<open>
  The run against \<open>idle\<close>: the twenty owned repositories are all queried and none
  contributes, so the organisation pass may still take twenty, and queries them all:
  forty commit queries in one run.
\<close>

theorem getCommitCount_forty_queries_counterexample:
  "(case getCommitCount idle 1000 ''alice'' 14 exampleConfig of
      (outcome, tr) \<Rightarrow> (outcome, length (commitQueries tr), length (commitQueries tr) \<le> 20))
     = (Inr \<lparr>commits = 0, sources = \<lparr>owned = 0, org = 0\<rparr>\<rparr>, 40, False)"
  by code_simp

section \<open>Cache controller\<close>

lemma bot_username_nonempty: "isBotAccount (Some u) None None \<Longrightarrow> u \<noteq> []"
  by (auto simp: isBotAccount_def truthy_def)

text \<open>
  Claim C8. When the login of the monitored identity alone passes for a bot: a request
  that finds no snapshot is answered with the status 400, with no provider call and the
  store as it was; a background run returns at once, with no provider call and the store
  as it was, so that a snapshot stored before stays.
\<close>

theorem bot_identity_rejected:
  "isBotAccount (Some (username config)) None None \<Longrightarrow>
   (store (''github-health:'' @ username config) = None \<longrightarrow>
      badge p now store config style =
        \<lparr>response = TextResponse ''Bot users are not supported'' 400,
         storeAfter = store, trace = [], scheduled = []\<rparr>) \<and>
   updateCacheInBackground p later store config cacheKey = (store, []) \<and>
   runBackground p later store (UpdateCache config cacheKey) = (store, [])"
  using bot_username_nonempty[of "username config"]
  by (simp add: badge_def badgeHandler_def updateCacheInBackground_def runBackground_def Let_def)

text \<open>The identity \<open>dependabot\<close>, on an empty store and on a store holding a snapshot.\<close>

theorem bot_identity_rejected_witness:
  "isBotAccount (Some (username botConfig)) None None \<and>
   Map.empty (''github-health:'' @ username botConfig) = (None :: (CacheData \<times> int) option) \<and>
   badge active 1000 Map.empty botConfig None =
     \<lparr>response = TextResponse ''Bot users are not supported'' 400,
      storeAfter = Map.empty, trace = [], scheduled = []\<rparr> \<and>
   updateCacheInBackground active 2000
       [''github-health:dependabot'' \<mapsto> (storedSnapshot 0, 86400)] botConfig
       ''github-health:dependabot''
     = ([''github-health:dependabot'' \<mapsto> (storedSnapshot 0, 86400)], [])"
proof -
  have a: "isBotAccount (Some (username botConfig)) None None"
    using dependabot_bot by (simp add: botConfig_def)
  from bot_identity_rejected[OF a, where store = Map.empty and p = active and now = 1000
      and style = None]
  have "badge active 1000 Map.empty botConfig None =
     \<lparr>response = TextResponse ''Bot users are not supported'' 400,
      storeAfter = Map.empty, trace = [], scheduled = []\<rparr>"
    by simp
  moreover from bot_identity_rejected[OF a, where p = active and later = 2000
      and store = "[''github-health:dependabot'' \<mapsto> (storedSnapshot 0, 86400)]"
      and cacheKey = "''github-health:dependabot''"]
  have "updateCacheInBackground active 2000
       [''github-health:dependabot'' \<mapsto> (storedSnapshot 0, 86400)] botConfig
       ''github-health:dependabot''
     = ([''github-health:dependabot'' \<mapsto> (storedSnapshot 0, 86400)], [])"
    by simp
  ultimately show ?thesis using a by simp
qed

text \<open>A run of \<open>getCommitCount\<close>, and so a background run past its bot check, begins with
  the request for the owned repositories.\<close>

lemma fetchWithRetry_begins:
  "0 < m \<Longrightarrow> \<exists>rest. snd (fetchWithRetry fetch req m d) = Fetch req 0 # rest"
  unfolding fetchWithRetry_def using fetchLoop_trace_first[of 0 m fetch req d None] by auto

lemma getCommitCount_begins:
  "\<exists>rest. snd (getCommitCount p now u days config) =
     Fetch (UsersReposUrl u, getGithubHeaders (githubToken config)) 0 # rest"
proof -
  let ?fw = "fetchWithRetry (userRepos p) (UsersReposUrl u, getGithubHeaders (githubToken config)) 3 1000"
  obtain res tr where fw: "?fw = (res, tr)" by (cases ?fw)
  have "\<exists>rest. snd ?fw = Fetch (UsersReposUrl u, getGithubHeaders (githubToken config)) 0 # rest"
    by (rule fetchWithRetry_begins) simp
  with fw obtain rest where
    "tr = Fetch (UsersReposUrl u, getGithubHeaders (githubToken config)) 0 # rest"
    by auto
  with fw show ?thesis
    by (auto simp: getCommitCount_def Let_def split: sum.splits option.splits prod.splits)
qed

lemma updateCacheInBackground_begins:
  "take (Suc 0) (snd (updateCacheInBackground p later store config cacheKey)) =
     updateCacheInBackground_start config"
proof -
  obtain rest where "snd (getCommitCount p later (username config) (monitoringDays config) config)
      = Fetch (UsersReposUrl (username config), getGithubHeaders (githubToken config)) 0 # rest"
    using getCommitCount_begins by blast
  then show ?thesis
    by (auto simp: updateCacheInBackground_def updateCacheInBackground_start_def
        split: prod.splits sum.splits)
qed

text \<open>
  The last step of the handler. In the single file it always yields the badge; in the
  modular handler \<^verbatim>\<open>isValidBadgeStyle\<close> throws, and every request that reaches the step is
  answered with the 500 of the handler's \<^verbatim>\<open>catch\<close>.
\<close>

lemma badgeOf_single_file:
  "badgeOf (Some VALID_BADGE_STYLES) data config style =
     Inr (BadgeResponse (status data) (commits data)
            (if truthy style \<and> orEmpty style \<in> set VALID_BADGE_STYLES then orEmpty style
             else ''flat'')
            (username config))"
  by (simp add: badgeOf_def isValidBadgeStyle_def Let_def VALID_BADGE_STYLES_def)

lemma badgeOf_modular:
  "badgeOf None data config style = Inl (ReferenceError ''VALID_BADGE_STYLES'')"
  "orError (badgeOf None data config style) = TextResponse ''Error generating badge'' 500"
  by (simp_all add: badgeOf_def isValidBadgeStyle_def orError_def Let_def)

lemma badge_modular_stored:
  assumes "username config \<noteq> []"
    and "store (''github-health:'' @ username config) = Some (cached, ttl)"
  shows "response (badge p now store config style) = TextResponse ''Error generating badge'' 500"
  using assms by (simp add: badge_def badgeHandler_def badgeOf_modular orError_def Let_def)

lemma badge_modular_cold:
  assumes "username config \<noteq> []"
    and "store (''github-health:'' @ username config) = None"
    and "\<not> isBotAccount (Some (username config)) None None"
  shows "response (badge p now store config style) = TextResponse ''Error generating badge'' 500"
proof (cases "getCommitCount p now (username config) (monitoringDays config) config")
  case (Pair outcome tr)
  with assms show ?thesis
    by (cases outcome) (simp_all add: badge_def badgeHandler_def badgeOf_modular orError_def Let_def)
qed

text \<open>
  Claim C5, as the code has it. With a monitored identity configured, in both handlers:
  when no snapshot is stored and the identity passes the bot check, the aggregation runs
  within the request (its trace is the request's trace) and, when it returns a result, the
  snapshot made from it is in the store when the response is produced; when the
  aggregation throws, the response is a 500 and the store is as it was. When a snapshot is
  stored and fresh, the request makes no provider call, schedules nothing and leaves the
  store as it was. When it is stale, the request schedules one background run of
  \<open>updateCacheInBackground\<close> and leaves the store as it was; its trace is the beginning of
  that run, the request for the owned repositories when the identity is no bot. In the
  single-file handler the response is the badge made from the new snapshot on a cold
  start, and from the stored snapshot when one is stored, fresh or stale. What the modular
  handler answers once it holds a snapshot stays open here.
\<close>

theorem cache_controller:
  assumes "username config \<noteq> []"
  shows
  "(store (''github-health:'' @ username config) = None \<and>
    \<not> isBotAccount (Some (username config)) None None \<and>
    getCommitCount p now (username config) (monitoringDays config) config = (Inr result, tr) \<longrightarrow>
      storeAfter (badgeHandler binding p now store config style) =
        store(''github-health:'' @ username config \<mapsto>
                (snapshotOf result config now, cacheTTL config)) \<and>
      trace (badgeHandler binding p now store config style) = tr \<and>
      scheduled (badgeHandler binding p now store config style) = [] \<and>
      Inr (response (badgeSingleFile p now store config style)) =
        badgeOf (Some VALID_BADGE_STYLES) (snapshotOf result config now) config style) \<and>
   (store (''github-health:'' @ username config) = None \<and>
    \<not> isBotAccount (Some (username config)) None None \<and>
    getCommitCount p now (username config) (monitoringDays config) config = (Inl e, tr) \<longrightarrow>
      badgeHandler binding p now store config style =
        \<lparr>response = TextResponse ''Error generating badge'' 500,
         storeAfter = store, trace = tr, scheduled = []\<rparr>) \<and>
   (store (''github-health:'' @ username config) = Some (cached, ttl) \<and>
    \<not> shouldUpdateCache now (lastUpdated cached) (jstUpdateHour config) \<longrightarrow>
      storeAfter (badgeHandler binding p now store config style) = store \<and>
      trace (badgeHandler binding p now store config style) = [] \<and>
      scheduled (badgeHandler binding p now store config style) = [] \<and>
      Inr (response (badgeSingleFile p now store config style)) =
        badgeOf (Some VALID_BADGE_STYLES) cached config style) \<and>
   (store (''github-health:'' @ username config) = Some (cached, ttl) \<and>
    shouldUpdateCache now (lastUpdated cached) (jstUpdateHour config) \<longrightarrow>
      storeAfter (badgeHandler binding p now store config style) = store \<and>
      scheduled (badgeHandler binding p now store config style) =
        [UpdateCache config (''github-health:'' @ username config)] \<and>
      trace (badgeHandler binding p now store config style) =
        take 1 (snd (runBackground p later store'
                       (UpdateCache config (''github-health:'' @ username config)))) \<and>
      runBackground p later store' (UpdateCache config (''github-health:'' @ username config)) =
        updateCacheInBackground p later store' config (''github-health:'' @ username config) \<and>
      Inr (response (badgeSingleFile p now store config style)) =
        badgeOf (Some VALID_BADGE_STYLES) cached config style)"
  using assms
  by (simp add: badgeHandler_def badgeSingleFile_def runBackground_def Let_def
      updateCacheInBackground_begins badgeOf_single_file orError_def)

text \<open>
  A cold start against \<open>active\<close>; then a snapshot stamped 23:00 JST, requested at 09:00
  JST of the next day (stale) and at 07:00 JST of the next day (fresh); then a cold start
  against \<open>offline\<close>, where the aggregation throws.
\<close>

theorem cache_controller_witness:
  "storeAfter (badge active 1000 Map.empty exampleConfig None) ''github-health:alice''
     = Some (\<lparr>commits = 3, sources = \<lparr>owned = 2, org = 1\<rparr>, status = inactive,
              lastUpdated = 1000\<rparr>, 86400) \<and>
   trace (badge active 1000 Map.empty exampleConfig None)
     = snd (getCommitCount active 1000 ''alice'' 14 exampleConfig) \<and>
   response (badgeSingleFile active 1000 Map.empty exampleConfig None)
     = BadgeResponse inactive 3 ''flat'' ''alice'' \<and>
   storeAfter (badge offline 1705276800000
       [''github-health:alice'' \<mapsto> (storedSnapshot 1705240800000, 86400)] exampleConfig None)
     = [''github-health:alice'' \<mapsto> (storedSnapshot 1705240800000, 86400)] \<and>
   scheduled (badge offline 1705276800000
       [''github-health:alice'' \<mapsto> (storedSnapshot 1705240800000, 86400)] exampleConfig None)
     = [UpdateCache exampleConfig ''github-health:alice''] \<and>
   trace (badge offline 1705276800000
       [''github-health:alice'' \<mapsto> (storedSnapshot 1705240800000, 86400)] exampleConfig None)
     = [Fetch (UsersReposUrl ''alice'', getGithubHeaders None) 0] \<and>
   response (badgeSingleFile offline 1705276800000
       [''github-health:alice'' \<mapsto> (storedSnapshot 1705240800000, 86400)] exampleConfig None)
     = BadgeResponse healthy 20 ''flat'' ''alice'' \<and>
   trace (badge offline 1705269600000
       [''github-health:alice'' \<mapsto> (storedSnapshot 1705240800000, 86400)] exampleConfig None)
     = [] \<and>
   scheduled (badge offline 1705269600000
       [''github-health:alice'' \<mapsto> (storedSnapshot 1705240800000, 86400)] exampleConfig None)
     = [] \<and>
   response (badgeSingleFile offline 1705269600000
       [''github-health:alice'' \<mapsto> (storedSnapshot 1705240800000, 86400)] exampleConfig None)
     = BadgeResponse healthy 20 ''flat'' ''alice'' \<and>
   badge offline 1000 Map.empty exampleConfig None
     = \<lparr>response = TextResponse ''Error generating badge'' 500, storeAfter = Map.empty,
        trace = snd (getCommitCount offline 1000 ''alice'' 14 exampleConfig), scheduled = []\<rparr>"
proof -
  let ?store = "[''github-health:alice'' \<mapsto> (storedSnapshot 1705240800000, 86400)]"
  let ?result = "\<lparr>commits = 3, sources = \<lparr>owned = 2, org = 1\<rparr>\<rparr>"
  let ?tr = "snd (getCommitCount active 1000 ''alice'' 14 exampleConfig)"
  have u: "username exampleConfig \<noteq> []" by (simp add: exampleConfig_def)
  have cfg: "username exampleConfig = ''alice''" "monitoringDays exampleConfig = 14"
    "jstUpdateHour exampleConfig = 8" "cacheTTL exampleConfig = 86400"
    "healthyThreshold exampleConfig = 15" "moderateThreshold exampleConfig = 5"
    "githubToken exampleConfig = None"
    by (simp_all add: exampleConfig_def)
  have agg: "getCommitCount active 1000 ''alice'' 14 exampleConfig = (Inr ?result, ?tr)"
    using active_result by (simp add: prod_eq_iff)
  have snap: "snapshotOf ?result exampleConfig 1000 =
      \<lparr>commits = 3, sources = \<lparr>owned = 2, org = 1\<rparr>, status = inactive, lastUpdated = 1000\<rparr>"
    by (simp add: snapshotOf_def cfg getHealthStatus_def)
  have badge1: "badgeOf (Some VALID_BADGE_STYLES)
        \<lparr>commits = 3, sources = \<lparr>owned = 2, org = 1\<rparr>, status = inactive, lastUpdated = 1000\<rparr>
        exampleConfig None = Inr (BadgeResponse inactive 3 ''flat'' ''alice'')"
    by (simp add: badgeOf_single_file cfg truthy_def)
  have badge2: "badgeOf (Some VALID_BADGE_STYLES) (storedSnapshot t) exampleConfig None
      = Inr (BadgeResponse healthy 20 ''flat'' ''alice'')" for t
    by (simp add: badgeOf_single_file cfg truthy_def storedSnapshot_def)
  have stale: "shouldUpdateCache 1705276800000 (lastUpdated (storedSnapshot 1705240800000)) 8"
    by code_simp
  have fresh: "\<not> shouldUpdateCache 1705269600000 (lastUpdated (storedSnapshot 1705240800000)) 8"
    by code_simp
  have start: "take 1 (snd (runBackground offline 1705276800000 ?store
        (UpdateCache exampleConfig ''github-health:alice''))) =
      [Fetch (UsersReposUrl ''alice'', getGithubHeaders None) 0]"
    using alice_no_bot
    by (simp add: runBackground_def updateCacheInBackground_begins
        updateCacheInBackground_start_def cfg)
  have cold: "storeAfter (badge active 1000 Map.empty exampleConfig None) =
        [''github-health:alice'' \<mapsto>
          (\<lparr>commits = 3, sources = \<lparr>owned = 2, org = 1\<rparr>, status = inactive, lastUpdated = 1000\<rparr>,
           86400)] \<and>
      trace (badge active 1000 Map.empty exampleConfig None) = ?tr \<and>
      response (badgeSingleFile active 1000 Map.empty exampleConfig None)
        = BadgeResponse inactive 3 ''flat'' ''alice''"
    using cache_controller[OF u, where p = active and now = 1000 and store = Map.empty
        and style = None and result = ?result and tr = ?tr and binding = None] agg alice_no_bot
    by (simp add: cfg snap badge1 badge_def)
  have s: "storeAfter (badge offline 1705276800000 ?store exampleConfig None) = ?store \<and>
      scheduled (badge offline 1705276800000 ?store exampleConfig None)
        = [UpdateCache exampleConfig ''github-health:alice''] \<and>
      trace (badge offline 1705276800000 ?store exampleConfig None)
        = [Fetch (UsersReposUrl ''alice'', getGithubHeaders None) 0] \<and>
      response (badgeSingleFile offline 1705276800000 ?store exampleConfig None)
        = BadgeResponse healthy 20 ''flat'' ''alice''"
    using cache_controller[OF u, where p = offline and now = 1705276800000 and store = ?store
        and style = None and cached = "storedSnapshot 1705240800000" and ttl = 86400
        and binding = None and later = 1705276800000 and store' = ?store] stale start
    by (simp add: cfg badge2 badge_def)
  have f: "trace (badge offline 1705269600000 ?store exampleConfig None) = [] \<and>
      scheduled (badge offline 1705269600000 ?store exampleConfig None) = [] \<and>
      response (badgeSingleFile offline 1705269600000 ?store exampleConfig None)
        = BadgeResponse healthy 20 ''flat'' ''alice''"
    using cache_controller[OF u, where p = offline and now = 1705269600000 and store = ?store
        and style = None and cached = "storedSnapshot 1705240800000" and ttl = 86400
        and binding = None] fresh
    by (simp add: cfg badge2 badge_def)
  have "fst (getCommitCount offline 1000 ''alice'' 14 exampleConfig) = Inl (NetworkError ''offline'')"
    by code_simp
  then have down: "getCommitCount offline 1000 ''alice'' 14 exampleConfig =
      (Inl (NetworkError ''offline''), snd (getCommitCount offline 1000 ''alice'' 14 exampleConfig))"
    by (simp add: prod_eq_iff)
  have e: "badge offline 1000 Map.empty exampleConfig None =
      \<lparr>response = TextResponse ''Error generating badge'' 500, storeAfter = Map.empty,
       trace = snd (getCommitCount offline 1000 ''alice'' 14 exampleConfig), scheduled = []\<rparr>"
    using cache_controller[OF u, where p = offline and now = 1000 and store = Map.empty
        and style = None and e = "NetworkError ''offline''" and binding = None
        and tr = "snd (getCommitCount offline 1000 ''alice'' 14 exampleConfig)"] down alice_no_bot
    by (simp add: cfg badge_def)
  from cold s f e show ?thesis by simp
qed

text \<open>
  Without a snapshot and with the identity \<open>dependabot\<close>, no aggregation runs and nothing
  is stored: the request is refused.
\<close>

theorem cache_controller_cold_bot_counterexample:
  "Map.empty (''github-health:'' @ username botConfig) = (None :: (CacheData \<times> int) option) \<and>
   response (badge active 1000 Map.empty botConfig None)
     = TextResponse ''Bot users are not supported'' 400 \<and>
   trace (badge active 1000 Map.empty botConfig None) = [] \<and>
   storeAfter (badge active 1000 Map.empty botConfig None)
     (''github-health:'' @ username botConfig) = None"
proof -
  have "isBotAccount (Some (username botConfig)) None None"
    using dependabot_bot by (simp add: botConfig_def)
  moreover have "username botConfig \<noteq> []" by (simp add: botConfig_def)
  ultimately show ?thesis by (simp add: badge_def badgeHandler_def Let_def)
qed

end
